theory Spec2Isabelle
  imports Main "HOL-Library.Char_ord"
begin

section \<open>The scanner (lex.go)\<close>

text \<open>
  Token kinds, in the order of the source's \<open>iota\<close> block: the zero value of
  \<open>itemType\<close> is \<open>tEOF\<close>, so the empty item \<open>item{}\<close> has kind \<open>tEOF\<close>.
\<close>

datatype itemType =
    tEOF | tERROR | tLITERAL | tNAME | tCARET | tPLUS | tCOLON | tEQUAL
  | tLANGLE | tRANGLE | tLPAREN | tRPAREN | tLSQUARE | tRSQUARE | tLBRACE | tRBRACE
  | tGROUPSTART | tGROUPCOMMIT | tGROUPABORT

record position =
  offset :: nat
  line :: nat
  col :: nat

record item =
  "typ" :: itemType
  val :: string
  pos :: position

text \<open>The zero values \<open>position{}\<close> and \<open>item{}\<close>.\<close>

definition position_zero :: position where
  "position_zero = \<lparr>offset = 0, line = 0, col = 0\<rparr>"

definition item_zero :: item where
  "item_zero = \<lparr>typ = tEOF, val = [], pos = position_zero\<rparr>"

text \<open>
  The state functions of the scanner; a \<open>stateFn\<close> value is one of these or \<open>nil\<close>,
  which is \<open>None\<close> here.
\<close>

datatype stateFn = LexDefault | LexLiteral | LexComment | LexName | LexGroup

text \<open>
  The lexer. The channel \<open>items\<close> (capacity 2) is the list of items sent and not yet
  received, oldest first. A state function is only run on an empty channel and sends
  at most two items, so a send never blocks.
\<close>

record lexer =
  input :: string
  curr :: position
  start :: position
  state :: "stateFn option"
  items :: "item list"

definition newLexer :: "string \<Rightarrow> lexer" where
  "newLexer inp =
     \<lparr>input = inp,
      curr = \<lparr>offset = 0, line = 1, col = 0\<rparr>,
      start = \<lparr>offset = 0, line = 1, col = 0\<rparr>,
      state = Some LexDefault,
      items = []\<rparr>"

text \<open>A rune read from the input is \<open>Some\<close> byte; the source's \<open>EOF = -1\<close> is \<open>None\<close>.\<close>

definition singles :: "char \<Rightarrow> itemType option" where
  "singles r =
     (if r = CHR ''('' then Some tLPAREN
      else if r = CHR '')'' then Some tRPAREN
      else if r = CHR ''['' then Some tLSQUARE
      else if r = CHR '']'' then Some tRSQUARE
      else if r = CHR ''{'' then Some tLBRACE
      else if r = CHR ''}'' then Some tRBRACE
      else if r = CHR ''<'' then Some tLANGLE
      else if r = CHR ''>'' then Some tRANGLE
      else if r = CHR '':'' then Some tCOLON
      else if r = CHR ''+'' then Some tPLUS
      else None)"

definition next_r :: "lexer \<Rightarrow> char option \<times> lexer" where
  "next_r l =
     (if offset (curr l) \<ge> length (input l) then (None, l)
      else
        let r = input l ! offset (curr l);
            c = curr l;
            c1 = (if r = CHR 0x0A then c\<lparr>line := line c + 1, col := 0\<rparr>
                  else c\<lparr>col := col c + 1\<rparr>)
        in (Some r, l\<lparr>curr := c1\<lparr>offset := offset c1 + 1\<rparr>\<rparr>))"

definition peek :: "lexer \<Rightarrow> char option" where
  "peek l =
     (if offset (curr l) \<ge> length (input l) then None
      else Some (input l ! offset (curr l)))"

definition slice :: "string \<Rightarrow> nat \<Rightarrow> nat \<Rightarrow> string" where
  "slice s a b = take (b - a) (drop a s)"

definition emit :: "itemType \<Rightarrow> lexer \<Rightarrow> lexer" where
  "emit t l =
     l\<lparr>items := items l @
          [\<lparr>typ = t, val = slice (input l) (offset (start l)) (offset (curr l)),
            pos = start l\<rparr>],
       start := curr l\<rparr>"

definition emitErrorf :: "string \<Rightarrow> lexer \<Rightarrow> lexer" where
  "emitErrorf msg l =
     l\<lparr>items := items l @ [\<lparr>typ = tERROR, val = msg, pos = start l\<rparr>]\<rparr>"

definition syntaxError :: "lexer \<Rightarrow> lexer \<times> stateFn option" where
  "syntaxError l = (emitErrorf ''Syntax error'' l, None)"

fun isSpace :: "char option \<Rightarrow> bool" where
  "isSpace None = False"
| "isSpace (Some r) =
     (r = CHR '' '' \<or> r = CHR 0x0A \<or> r = CHR 0x0D \<or> r = CHR 0x09)"

fun isDigit :: "char option \<Rightarrow> bool" where
  "isDigit None = False"
| "isDigit (Some r) = (CHR ''0'' \<le> r \<and> r \<le> CHR ''9'')"

fun isAlpha :: "char option \<Rightarrow> bool" where
  "isAlpha None = False"
| "isAlpha (Some r) =
     ((CHR ''a'' \<le> r \<and> r \<le> CHR ''z'') \<or> (CHR ''A'' \<le> r \<and> r \<le> CHR ''Z''))"

fun isHex :: "char option \<Rightarrow> bool" where
  "isHex None = False"
| "isHex (Some r) =
     ((CHR ''a'' \<le> r \<and> r \<le> CHR ''f'') \<or>
      (CHR ''A'' \<le> r \<and> r \<le> CHR ''F'' \<or> (CHR ''0'' \<le> r \<and> r \<le> CHR ''9'')))"

text \<open>The number of bytes not yet read: the measure of every scanning loop.\<close>

definition remaining :: "lexer \<Rightarrow> nat" where
  "remaining l = length (input l) - offset (curr l)"

lemma next_r_remaining:
  "peek l = Some r \<Longrightarrow> remaining (snd (next_r l)) < remaining l"
  by (auto simp: peek_def next_r_def remaining_def Let_def split: if_splits)

lemma isSome_peek:
  "isSpace (peek l) \<or> isHex (peek l) \<or> isAlpha (peek l) \<or> isDigit (peek l)
     \<Longrightarrow> \<exists>r. peek l = Some r"
  by (cases "peek l") auto

text \<open>\<open>gatherID\<close>: the run of hex digits at the cursor.\<close>

function gatherID_loop :: "string \<Rightarrow> lexer \<Rightarrow> string \<times> lexer" where
  "gatherID_loop ident l =
     (let r = peek l in
      if \<not> isHex r then (ident, l)
      else gatherID_loop (ident @ [the r]) (snd (next_r l)))"
  by pat_completeness auto
termination
proof (relation "measure (\<lambda>(ident, l). remaining l)")
  show "wf (measure (\<lambda>(ident, l). remaining l))" by simp
next
  fix ident l r
  assume "r = peek l" and "\<not> \<not> isHex r"
  then obtain c where "peek l = Some c" by (cases "peek l") auto
  then show "((ident @ [the r], snd (next_r l)), (ident, l)) \<in> measure (\<lambda>(ident, l). remaining l)"
    by (simp add: next_r_remaining)
qed

definition gatherID :: "lexer \<Rightarrow> string \<times> lexer" where
  "gatherID l = gatherID_loop [] l"

text \<open>
  \<open>lexDefault\<close>, the default scanning state. Returning \<open>lexComment\<close>, \<open>lexLiteral\<close>,
  \<open>lexName\<close> or \<open>lexGroup\<close> reads nothing: the next state starts at the same byte.
\<close>

function lexDefault :: "lexer \<Rightarrow> lexer \<times> stateFn option" where
  "lexDefault l =
     (case peek l of
        None \<Rightarrow> (emit tEOF l, None)
      | Some c \<Rightarrow>
          if isSpace (Some c) then
            (let l1 = snd (next_r l) in lexDefault (l1\<lparr>start := curr l1\<rparr>))
          else
            (case singles c of
               Some t \<Rightarrow> (emit t (snd (next_r l)), Some LexDefault)
             | None \<Rightarrow>
                 if c = CHR ''^'' then
                   (let l1 = emit tCARET (snd (next_r l));
                        (ident, l2) = gatherID l1
                    in if length ident = 0 then syntaxError l2
                       else (emit tNAME l2, Some LexDefault))
                 else if c = CHR ''/'' then (l, Some LexComment)
                 else if c = CHR ''='' then (l, Some LexLiteral)
                 else if isAlpha (Some c) \<or> isDigit (Some c) \<or> c = CHR ''_'' then
                   (l, Some LexName)
                 else if c = CHR ''@'' then (l, Some LexGroup)
                 else syntaxError l))"
  by pat_completeness auto
termination
proof (relation "measure remaining")
  show "wf (measure remaining)" by simp
next
  fix l c l1
  assume "peek l = Some c" and "l1 = snd (next_r l)"
  then show "(l1\<lparr>start := curr l1\<rparr>, l) \<in> measure remaining"
    using next_r_remaining [of l c] by (simp add: remaining_def)
qed

text \<open>\<open>lexLiteral\<close>: the loop tracks the escape character, without decoding it.\<close>

function lexLiteral_loop :: "bool \<Rightarrow> lexer \<Rightarrow> lexer" where
  "lexLiteral_loop esc l =
     (case peek l of
        None \<Rightarrow> l
      | Some r \<Rightarrow>
          if \<not> esc \<and> r = CHR '')'' then l
          else lexLiteral_loop (\<not> esc \<and> r = CHR 0x5C) (snd (next_r l)))"
  by pat_completeness auto
termination
  by (relation "measure (\<lambda>(esc, l). remaining l)") (auto simp: next_r_remaining)

definition lexLiteral :: "lexer \<Rightarrow> lexer \<times> stateFn option" where
  "lexLiteral l =
     (let (r, l1) = next_r l in
      if r \<noteq> Some CHR ''='' then
        (emitErrorf (''Missing '' @ [CHR 0x27] @ ''='' @ [CHR 0x27]) l1, None)
      else
        let l2 = emit tEQUAL l1;
            l3 = lexLiteral_loop False l2
        in (emit tLITERAL l3, Some LexDefault))"

function lexComment_loop :: "lexer \<Rightarrow> lexer" where
  "lexComment_loop l =
     (case peek l of
        None \<Rightarrow> l
      | Some r \<Rightarrow> if r = CHR 0x0A then l else lexComment_loop (snd (next_r l)))"
  by pat_completeness auto
termination
  by (relation "measure remaining") (auto simp: next_r_remaining)

definition lexComment :: "lexer \<Rightarrow> lexer \<times> stateFn option" where
  "lexComment l =
     (let (r, l1) = next_r l in
      if r \<noteq> Some CHR ''/'' then
        (emitErrorf (''expected '' @ [CHR 0x27] @ ''/'' @ [CHR 0x27]) l1, None)
      else
        let (r2, l2) = next_r l1 in
        if r2 \<noteq> Some CHR ''/'' then
          (emitErrorf (''expected '' @ [CHR 0x27] @ ''/'' @ [CHR 0x27]) l2, None)
        else
          let l3 = lexComment_loop l2
          in (l3\<lparr>start := curr l3\<rparr>, Some LexDefault))"

text \<open>\<open>strings.ContainsRune\<close>; \<open>EOF\<close> is in no string.\<close>

fun containsRune :: "string \<Rightarrow> char option \<Rightarrow> bool" where
  "containsRune s None = False"
| "containsRune s (Some r) = (r \<in> set s)"

function lexName_loop :: "bool \<Rightarrow> lexer \<Rightarrow> lexer" where
  "lexName_loop first l =
     (let r = peek l in
      if \<not> (isAlpha r \<or> isDigit r \<or> r = Some CHR ''_'' \<or>
             (\<not> first \<and> containsRune ''-!?+'' r)) then l
      else lexName_loop False (snd (next_r l)))"
  by pat_completeness auto
termination
proof (relation "measure (\<lambda>(first, l). remaining l)")
  show "wf (measure (\<lambda>(first, l). remaining l))" by simp
next
  fix first l r
  assume r: "r = peek l"
    and "\<not> \<not> (isAlpha r \<or> isDigit r \<or> r = Some CHR ''_'' \<or>
               (\<not> first \<and> containsRune ''-!?+'' r))"
  then obtain c where "peek l = Some c" by (cases "peek l") auto
  then show "((False, snd (next_r l)), (first, l)) \<in> measure (\<lambda>(first, l). remaining l)"
    by (simp add: next_r_remaining)
qed

definition lexName :: "lexer \<Rightarrow> lexer \<times> stateFn option" where
  "lexName l = (let l1 = lexName_loop True l in (emit tNAME l1, Some LexDefault))"

text \<open>
  The lexer's own \<open>expect\<close>: reads the bytes of \<open>s\<close>; at the first mismatch it emits
  an error naming the whole of \<open>s\<close>.
\<close>

fun lexer_expect_loop :: "string \<Rightarrow> string \<Rightarrow> lexer \<Rightarrow> bool \<times> lexer" where
  "lexer_expect_loop s [] l = (True, l)"
| "lexer_expect_loop s (expected # rest) l =
     (let (r, l1) = next_r l in
      if r \<noteq> Some expected then
        (False, emitErrorf (''Expected '' @ [CHR 0x22] @ s @ [CHR 0x22]) l1)
      else lexer_expect_loop s rest l1)"

definition lexer_expect :: "string \<Rightarrow> lexer \<Rightarrow> bool \<times> lexer" where
  "lexer_expect s l = lexer_expect_loop s s l"

definition lexGroup :: "lexer \<Rightarrow> lexer \<times> stateFn option" where
  "lexGroup l =
     (let (ok, l1) = lexer_expect ''@$$'' l in
      if \<not> ok then (l1, None)
      else
        let (r, l2) = next_r l1 in
        if r = Some CHR ''{'' then
          (let (ident, l3) = gatherID l2 in
           if length ident = 0 then (emitErrorf ''Bad ID'' l3, None)
           else
             let (ok1, l4) = lexer_expect ''{@'' l3 in
             if \<not> ok1 then (l4, None)
             else (emit tGROUPSTART l4, Some LexDefault))
        else if r = Some CHR ''}'' then
          (if peek l2 = Some CHR ''~'' then
             (let (ok1, l3) = lexer_expect ''~~}@'' l2 in
              if \<not> ok1 then (l3, None)
              else (emit tGROUPABORT l3, Some LexDefault))
           else
             let (ident, l3) = gatherID l2 in
             if length ident = 0 then (emitErrorf ''Bad ID'' l3, None)
             else
               let (ok1, l4) = lexer_expect ''}@'' l3 in
               if \<not> ok1 then (l4, None)
               else (emit tGROUPCOMMIT l4, Some LexDefault))
        else syntaxError l2)"

text \<open>Calling the state function held in \<open>l.state\<close>.\<close>

fun run :: "stateFn \<Rightarrow> lexer \<Rightarrow> lexer \<times> stateFn option" where
  "run LexDefault l = lexDefault l"
| "run LexLiteral l = lexLiteral l"
| "run LexComment l = lexComment l"
| "run LexName l = lexName l"
| "run LexGroup l = lexGroup l"

subsection \<open>Every scanning loop ends\<close>

declare gatherID_loop.simps [simp del] lexDefault.simps [simp del]
  lexLiteral_loop.simps [simp del] lexComment_loop.simps [simp del]
  lexName_loop.simps [simp del]

lemma next_r_fst [simp]: "fst (next_r l) = peek l"
  by (simp add: next_r_def peek_def Let_def)

lemma next_r_frame [simp]:
  "input (snd (next_r l)) = input l"
  "items (snd (next_r l)) = items l"
  "state (snd (next_r l)) = state l"
  "start (snd (next_r l)) = start l"
  by (simp_all add: next_r_def Let_def)

lemma next_r_rem [simp]: "remaining (snd (next_r l)) = remaining l - 1"
  by (auto simp: next_r_def remaining_def Let_def)

lemma peek_None: "(peek l = None) = (remaining l = 0)"
  by (auto simp: peek_def remaining_def)

lemma emit_frame [simp]:
  "input (emit t l) = input l"
  "state (emit t l) = state l"
  "curr (emit t l) = curr l"
  "length (items (emit t l)) = Suc (length (items l))"
  "items (emit t l) \<noteq> []"
  "remaining (emit t l) = remaining l"
  "peek (emit t l) = peek l"
  by (simp_all add: emit_def remaining_def peek_def)

lemma emitErrorf_frame [simp]:
  "input (emitErrorf m l) = input l"
  "state (emitErrorf m l) = state l"
  "curr (emitErrorf m l) = curr l"
  "length (items (emitErrorf m l)) = Suc (length (items l))"
  "items (emitErrorf m l) \<noteq> []"
  "remaining (emitErrorf m l) = remaining l"
  "peek (emitErrorf m l) = peek l"
  by (simp_all add: emitErrorf_def remaining_def peek_def)

lemma upd_frame [simp]:
  "remaining (l\<lparr>start := x\<rparr>) = remaining l"
  "peek (l\<lparr>start := x\<rparr>) = peek l"
  "remaining (l\<lparr>state := y\<rparr>) = remaining l"
  "peek (l\<lparr>state := y\<rparr>) = peek l"
  "remaining (l\<lparr>items := z\<rparr>) = remaining l"
  "peek (l\<lparr>items := z\<rparr>) = peek l"
  by (simp_all add: remaining_def peek_def)

lemma gatherID_loop_frame:
  "gatherID_loop i l = (i', l') \<Longrightarrow>
     input l' = input l \<and> items l' = items l \<and> state l' = state l \<and> remaining l' \<le> remaining l"
proof (induction i l rule: gatherID_loop.induct)
  case (1 ident l)
  show ?case
  proof (cases "isHex (peek l)")
    case True
    with "1.prems" have "gatherID_loop (ident @ [the (peek l)]) (snd (next_r l)) = (i', l')"
      by (subst (asm) gatherID_loop.simps) simp
    from "1.IH" [OF refl _ this] True show ?thesis by auto
  next
    case False
    with "1.prems" show ?thesis by (subst (asm) gatherID_loop.simps) simp
  qed
qed


lemma gatherID_frame:
  "gatherID l = (i', l') \<Longrightarrow>
     input l' = input l \<and> items l' = items l \<and> state l' = state l \<and> remaining l' \<le> remaining l"
  unfolding gatherID_def by (rule gatherID_loop_frame)

lemma lexLiteral_loop_frame:
  "input (lexLiteral_loop e l) = input l \<and> items (lexLiteral_loop e l) = items l \<and>
   state (lexLiteral_loop e l) = state l \<and> remaining (lexLiteral_loop e l) \<le> remaining l"
proof (induction e l rule: lexLiteral_loop.induct)
  case (1 esc l)
  show ?case
  proof (cases "peek l")
    case None
    then show ?thesis by (subst (1 2 3 4) lexLiteral_loop.simps) simp
  next
    case (Some r)
    show ?thesis
    proof (cases "\<not> esc \<and> r = CHR '')''")
      case True
      with Some show ?thesis by (subst (1 2 3 4) lexLiteral_loop.simps) simp
    next
      case False
      from "1.IH" [OF Some False] Some False show ?thesis
        by (subst (1 2 3 4) lexLiteral_loop.simps) auto
    qed
  qed
qed

lemma lexComment_loop_frame:
  "input (lexComment_loop l) = input l \<and> items (lexComment_loop l) = items l \<and>
   state (lexComment_loop l) = state l \<and> remaining (lexComment_loop l) \<le> remaining l"
proof (induction l rule: lexComment_loop.induct)
  case (1 l)
  show ?case
  proof (cases "peek l")
    case None
    then show ?thesis by (subst (1 2 3 4) lexComment_loop.simps) simp
  next
    case (Some r)
    show ?thesis
    proof (cases "r = CHR 0x0A")
      case True
      with Some show ?thesis by (subst (1 2 3 4) lexComment_loop.simps) simp
    next
      case False
      from "1.IH" [OF Some False] Some False show ?thesis
        by (subst (1 2 3 4) lexComment_loop.simps) auto
    qed
  qed
qed

text \<open>The bytes that may start a name: those on which \<open>lexDefault\<close> hands over to \<open>lexName\<close>.\<close>

definition name_start :: "char option \<Rightarrow> bool" where
  "name_start r = (isAlpha r \<or> isDigit r \<or> r = Some CHR ''_'')"

lemma lexName_loop_frame:
  "input (lexName_loop f l) = input l \<and> items (lexName_loop f l) = items l \<and>
   state (lexName_loop f l) = state l \<and> remaining (lexName_loop f l) \<le> remaining l"
proof (induction f l rule: lexName_loop.induct)
  case (1 first l)
  let ?c = "isAlpha (peek l) \<or> isDigit (peek l) \<or> peek l = Some CHR ''_'' \<or>
             (\<not> first \<and> containsRune ''-!?+'' (peek l))"
  show ?case
  proof (cases ?c)
    case False
    then show ?thesis by (subst (1 2 3 4) lexName_loop.simps) (simp add: Let_def)
  next
    case True
    from "1.IH" [OF refl] True show ?thesis
      by (subst (1 2 3 4) lexName_loop.simps) (auto simp: Let_def)
  qed
qed

lemma lexName_loop_progress:
  "name_start (peek l) \<Longrightarrow> remaining (lexName_loop True l) < remaining l"
proof -
  assume ns: "name_start (peek l)"
  then obtain c where c: "peek l = Some c" by (cases "peek l") (auto simp: name_start_def)
  then have "remaining l \<noteq> 0" using peek_None [of l] by simp
  moreover have "lexName_loop True l = lexName_loop False (snd (next_r l))"
    using ns by (subst lexName_loop.simps) (auto simp: Let_def name_start_def)
  moreover have "remaining (lexName_loop False (snd (next_r l))) \<le> remaining (snd (next_r l))"
    using lexName_loop_frame by blast
  ultimately show ?thesis by simp
qed

lemma lexer_expect_loop_frame:
  "lexer_expect_loop s xs l = (ok, l') \<Longrightarrow>
     input l' = input l \<and> state l' = state l \<and> remaining l' \<le> remaining l \<and>
     (if ok then items l' = items l \<and> (xs \<noteq> [] \<longrightarrow> remaining l' < remaining l)
      else length (items l') = Suc (length (items l)))"
proof (induction xs arbitrary: l)
  case Nil
  then show ?case by auto
next
  case (Cons x xs)
  show ?case
  proof (cases "peek l = Some x")
    case True
    then have r: "remaining l \<noteq> 0" using peek_None [of l] by simp
    from Cons.prems True have "lexer_expect_loop s xs (snd (next_r l)) = (ok, l')"
      by (simp add: split_beta)
    from Cons.IH [OF this] r show ?thesis by (auto split: if_splits)
  next
    case False
    with Cons.prems show ?thesis by (auto simp: split_beta)
  qed
qed

text \<open>
  A bound on the tokens still to come: every run of a state function keeps it or
  lowers it, and receiving an item lowers it.
\<close>

definition weight :: "stateFn option \<Rightarrow> char option \<Rightarrow> nat" where
  "weight st pk =
     (case st of
        None \<Rightarrow> 0
      | Some LexName \<Rightarrow> (if name_start pk then 2 else 3)
      | Some _ \<Rightarrow> 2)"

definition lex_measure :: "lexer \<Rightarrow> nat" where
  "lex_measure l = 4 * remaining l + length (items l) + weight (state l) (peek l)"

lemma weight_simps [simp]:
  "weight None pk = 0"
  "weight (Some LexDefault) pk = 2"
  "weight (Some LexLiteral) pk = 2"
  "weight (Some LexComment) pk = 2"
  "weight (Some LexGroup) pk = 2"
  "name_start pk \<Longrightarrow> weight (Some LexName) pk = 2"
  "\<not> name_start pk \<Longrightarrow> weight (Some LexName) pk = 3"
  by (simp_all add: weight_def)

lemma lexDefault_step:
  "lexDefault l = (l1, st1) \<Longrightarrow>
     4 * remaining l1 + length (items l1) + weight st1 (peek l1)
       \<le> 4 * remaining l + length (items l) + 2 \<and>
     (items l1 = [] \<longrightarrow> st1 \<noteq> None \<and> st1 \<noteq> Some LexDefault \<and> remaining l1 \<le> remaining l)"
proof (induction l arbitrary: l1 st1 rule: lexDefault.induct)
  case (1 l)
  note eq = "1.prems" [unfolded lexDefault.simps [of l]]
  show ?case
  proof (cases "peek l")
    case None
    with eq show ?thesis by auto
  next
    case (Some c)
    then have r: "remaining l \<noteq> 0" using peek_None [of l] by simp
    show ?thesis
    proof (cases "isSpace (Some c)")
      case True
      with eq Some
      have "lexDefault ((snd (next_r l))\<lparr>start := curr (snd (next_r l))\<rparr>) = (l1, st1)"
        by (simp add: Let_def)
      from "1.IH" [OF Some True refl this] r show ?thesis by auto
    next
      case False
      note nsp = this
      show ?thesis
      proof (cases "singles c")
        case (Some t)
        with eq \<open>peek l = Some c\<close> nsp
        have "l1 = emit t (snd (next_r l))" "st1 = Some LexDefault" by simp_all
        with r show ?thesis by simp
      next
        case None
        show ?thesis
        proof (cases "c = CHR ''^''")
          case True
          obtain ident l2 where g: "gatherID (emit tCARET (snd (next_r l))) = (ident, l2)"
            by (cases "gatherID (emit tCARET (snd (next_r l)))") auto
          from gatherID_frame [OF g]
          have f: "length (items l2) = Suc (length (items l))" "remaining l2 \<le> remaining l - 1"
            by auto
          from eq \<open>peek l = Some c\<close> nsp None True g
          have "(l1, st1) = (if length ident = 0 then syntaxError l2 else (emit tNAME l2, Some LexDefault))"
            by (simp add: Let_def)
          with f r show ?thesis by (auto simp: syntaxError_def split: if_splits)
        next
          case False
          with eq \<open>peek l = Some c\<close> nsp None show ?thesis
            by (auto simp: syntaxError_def name_start_def split: if_splits
                simp del: isAlpha.simps isDigit.simps isSpace.simps)
        qed
      qed
    qed
  qed
qed


lemma lexLiteral_step:
  "lexLiteral l = (l1, st1) \<Longrightarrow>
     4 * remaining l1 + length (items l1) + weight st1 (peek l1)
       \<le> 4 * remaining l + length (items l) + 2 \<and> items l1 \<noteq> []"
proof -
  assume eq: "lexLiteral l = (l1, st1)"
  let ?l0 = "snd (next_r l)"
  show ?thesis
  proof (cases "peek l = Some CHR ''=''")
    case False
    with eq show ?thesis by (auto simp: lexLiteral_def split_beta)
  next
    case True
    then have "remaining l \<noteq> 0" using peek_None [of l] by simp
    moreover from eq True
    have "l1 = emit tLITERAL (lexLiteral_loop False (emit tEQUAL ?l0))" "st1 = Some LexDefault"
      by (auto simp: lexLiteral_def Let_def split_beta)
    moreover note lexLiteral_loop_frame [of False "emit tEQUAL ?l0"]
    ultimately show ?thesis by auto
  qed
qed

lemma lexComment_step:
  "lexComment l = (l1, st1) \<Longrightarrow>
     4 * remaining l1 + length (items l1) + weight st1 (peek l1)
       \<le> 4 * remaining l + length (items l) + 2 \<and>
     (items l1 = [] \<longrightarrow> remaining l1 < remaining l)"
proof -
  assume eq: "lexComment l = (l1, st1)"
  let ?l0 = "snd (next_r l)"
  let ?l2 = "snd (next_r ?l0)"
  show ?thesis
  proof (cases "peek l = Some CHR ''/''")
    case False
    with eq show ?thesis by (auto simp: lexComment_def split_beta)
  next
    case True
    then have r0: "remaining l \<noteq> 0" using peek_None [of l] by simp
    show ?thesis
    proof (cases "peek ?l0 = Some CHR ''/''")
      case False
      with eq True show ?thesis by (auto simp: lexComment_def split_beta)
    next
      case True
      with eq \<open>peek l = Some CHR ''/''\<close>
      have "l1 = (lexComment_loop ?l2)\<lparr>start := curr (lexComment_loop ?l2)\<rparr>"
        "st1 = Some LexDefault"
        by (auto simp: lexComment_def Let_def split_beta)
      moreover note lexComment_loop_frame [of ?l2]
      ultimately show ?thesis using r0 by auto
    qed
  qed
qed

lemma lexName_step:
  "lexName l = (l1, st1) \<Longrightarrow>
     4 * remaining l1 + length (items l1) + weight st1 (peek l1)
       \<le> 4 * remaining l + length (items l) + weight (Some LexName) (peek l) \<and> items l1 \<noteq> []"
proof -
  assume eq: "lexName l = (l1, st1)"
  then have l1: "l1 = emit tNAME (lexName_loop True l)" "st1 = Some LexDefault"
    by (auto simp: lexName_def Let_def)
  note f = lexName_loop_frame [of True l]
  show ?thesis
  proof (cases "name_start (peek l)")
    case True
    from lexName_loop_progress [OF this] True l1 f show ?thesis by auto
  next
    case False
    with l1 f show ?thesis by auto
  qed
qed



lemma lexer_expect_frame:
  "lexer_expect s l = (ok, l') \<Longrightarrow>
     input l' = input l \<and> state l' = state l \<and> remaining l' \<le> remaining l \<and>
     (if ok then items l' = items l \<and> (s \<noteq> [] \<longrightarrow> remaining l' < remaining l)
      else length (items l') = Suc (length (items l)))"
  unfolding lexer_expect_def by (rule lexer_expect_loop_frame)

lemma next_r_dest:
  "next_r a = (r, b) \<Longrightarrow>
     r = peek a \<and> input b = input a \<and> items b = items a \<and> state b = state a \<and>
     remaining b = remaining a - 1"
  using next_r_fst [of a] next_r_frame [of a] next_r_rem [of a] by simp

lemma lexGroup_step:
  "lexGroup l = (l1, st1) \<Longrightarrow>
     4 * remaining l1 + length (items l1) + weight st1 (peek l1)
       \<le> 4 * remaining l + length (items l) + 2 \<and> items l1 \<noteq> []"
  unfolding lexGroup_def
  by (auto simp: Let_def syntaxError_def split: prod.splits if_splits
      dest!: lexer_expect_frame gatherID_frame next_r_dest)

subsection \<open>Pulling items\<close>

text \<open>
  How the program can stop abnormally: calling the \<open>nil\<close> state function (the scanner
  is asked for an item after it stopped), and the parser's \<open>panic("poop")\<close>.
\<close>

datatype panic = NilStateFn | Poop

definition nextItem_measure :: "lexer \<Rightarrow> nat" where
  "nextItem_measure l =
     (if items l \<noteq> [] then 0
      else case state l of
             None \<Rightarrow> 1
           | Some LexDefault \<Rightarrow> 2 * remaining l + 3
           | Some _ \<Rightarrow> 2 * remaining l + 2)"

lemma run_nextItem_measure:
  assumes "items l = []" and "state l = Some st" and "run st l = (l1, st1)"
  shows "nextItem_measure (l1\<lparr>state := st1\<rparr>) < nextItem_measure l"
proof (cases st)
  case LexDefault
  with assms lexDefault_step [of l l1 st1] show ?thesis
    by (cases "items l1 = []") (auto simp: nextItem_measure_def split: option.splits stateFn.splits)
next
  case LexLiteral
  with assms lexLiteral_step [of l l1 st1] show ?thesis
    by (auto simp: nextItem_measure_def)
next
  case LexComment
  with assms lexComment_step [of l l1 st1] show ?thesis
    by (cases "items l1 = []") (auto simp: nextItem_measure_def split: option.splits stateFn.splits)
next
  case LexName
  with assms lexName_step [of l l1 st1] show ?thesis
    by (auto simp: nextItem_measure_def)
next
  case LexGroup
  with assms lexGroup_step [of l l1 st1] show ?thesis
    by (auto simp: nextItem_measure_def)
qed

text \<open>
  \<open>nextItem\<close>: receive from the channel if an item is there, else run the state
  function and store the state it returns. Running the \<open>nil\<close> state panics.
\<close>

function nextItem :: "lexer \<Rightarrow> panic + item \<times> lexer" where
  "nextItem l =
     (case items l of
        it # rest \<Rightarrow> Inr (it, l\<lparr>items := rest\<rparr>)
      | [] \<Rightarrow>
          (case state l of
             None \<Rightarrow> Inl NilStateFn
           | Some st \<Rightarrow>
               (case run st l of (l1, st1) \<Rightarrow> nextItem (l1\<lparr>state := st1\<rparr>))))"
  by pat_completeness auto
termination
  by (relation "measure nextItem_measure")
     (auto intro: run_nextItem_measure [OF _ _ sym])

declare nextItem.simps [simp del]

lemma run_lex_measure:
  assumes "state l = Some st" and "run st l = (l1, st1)"
  shows "lex_measure (l1\<lparr>state := st1\<rparr>) \<le> lex_measure l"
proof (cases st)
  case LexDefault
  with assms lexDefault_step [of l l1 st1] show ?thesis by (simp add: lex_measure_def)
next
  case LexLiteral
  with assms lexLiteral_step [of l l1 st1] show ?thesis by (simp add: lex_measure_def)
next
  case LexComment
  with assms lexComment_step [of l l1 st1] show ?thesis by (simp add: lex_measure_def)
next
  case LexName
  with assms lexName_step [of l l1 st1] show ?thesis by (simp add: lex_measure_def)
next
  case LexGroup
  with assms lexGroup_step [of l l1 st1] show ?thesis by (simp add: lex_measure_def)
qed

lemma nextItem_lex_measure:
  "nextItem l = Inr (it, l') \<Longrightarrow> lex_measure l' < lex_measure l"
proof (induction l rule: nextItem.induct)
  case (1 l)
  show ?case
  proof (cases "items l")
    case (Cons a rest)
    with "1.prems" have "l' = l\<lparr>items := rest\<rparr>" by (subst (asm) nextItem.simps) simp
    with Cons show ?thesis by (simp add: lex_measure_def)
  next
    case Nil
    show ?thesis
    proof (cases "state l")
      case None
      with Nil "1.prems" show ?thesis by (subst (asm) nextItem.simps) simp
    next
      case (Some st)
      obtain l1 st1 where r: "run st l = (l1, st1)" by (cases "run st l") auto
      with Nil Some "1.prems" have "nextItem (l1\<lparr>state := st1\<rparr>) = Inr (it, l')"
        by (subst (asm) nextItem.simps) simp
      from "1.IH" [OF Nil Some r [symmetric] this] run_lex_measure [OF Some r]
      show ?thesis by simp
    qed
  qed
qed

section \<open>The parser (parse.go)\<close>

text \<open>
  Rows and tables. A Go map that is \<open>nil\<close> reads like an empty one, and the parser
  never writes to a map that may be \<open>nil\<close> nor compares one with \<open>nil\<close>; both are
  the empty map here, so \<open>Table{}\<close> is the table of two empty maps.
\<close>

type_synonym Row = "string \<rightharpoonup> string"

record Table =
  meta :: "string \<rightharpoonup> string"
  rows :: "string \<rightharpoonup> Row"

definition Table_zero :: Table where
  "Table_zero = \<lparr>meta = Map.empty, rows = Map.empty\<rparr>"

text \<open>
  The values stored in \<open>p.err\<close>, one constructor for each \<open>fmt.Errorf\<close> whose
  result can be read afterwards, holding the arguments of the format:
  \<open>"%s: bad alias %s:%s"\<close>, \<open>"%s: Unexpected %s"\<close> and \<open>"%s: Not hex - %s"\<close>.
  The error that \<open>expect\<close> stores (\<open>"%s: Unexpected - %s"\<close>) is followed at once by
  \<open>panic("poop")\<close>, which nothing recovers: that path is the panic \<open>Poop\<close>.
\<close>

datatype perror =
    BadAlias string string string
  | Unexpected string item
  | NotHex string item

record parser =
  filename :: string
  lex_p :: lexer
  peeked :: "item option"
  err :: "perror option"
  dicts :: "string \<rightharpoonup> (string \<rightharpoonup> string)"

definition NewParser :: "string \<Rightarrow> lexer \<Rightarrow> parser" where
  "NewParser fname l =
     \<lparr>filename = fname, lex_p = l, peeked = None, err = None, dicts = Map.empty\<rparr>"

text \<open>
  A method of the parser returns its value and the parser it leaves, or panics.
  \<open>pbind\<close> runs one call after another; a panic ends the run.
\<close>

type_synonym 'a res = "panic + 'a \<times> parser"

definition pbind :: "'a res \<Rightarrow> ('a \<times> parser \<Rightarrow> 'b res) \<Rightarrow> 'b res" where
  "pbind m f = (case m of Inl e \<Rightarrow> Inl e | Inr r \<Rightarrow> f r)"

lemma pbind_simps [simp]:
  "pbind (Inl e) f = Inl e"
  "pbind (Inr r) f = f r"
  by (simp_all add: pbind_def)

lemma pbind_cong [fundef_cong]:
  "m = m' \<Longrightarrow> (\<And>r. m' = Inr r \<Longrightarrow> f r = f' r) \<Longrightarrow> pbind m f = pbind m' f'"
  by (auto simp: pbind_def split: sum.splits)

lemma pbind_Inr:
  "pbind m f = Inr r \<Longrightarrow> \<exists>x p. m = Inr (x, p) \<and> f (x, p) = Inr r"
  by (auto simp: pbind_def split: sum.splits)

text \<open>\<open>dict\<close> returns the dictionary of a namespace, creating it if required.\<close>

definition dict :: "string \<Rightarrow> parser \<Rightarrow> (string \<rightharpoonup> string) \<times> parser" where
  "dict namespace p =
     (case dicts p namespace of
        None \<Rightarrow> (Map.empty, p\<lparr>dicts := (dicts p)(namespace \<mapsto> Map.empty)\<rparr>)
      | Some d \<Rightarrow> (d, p))"

definition resolve :: "string \<Rightarrow> string \<Rightarrow> parser \<Rightarrow> string \<times> parser" where
  "resolve ident namespace p =
     (if err p \<noteq> None then ([], p)
      else
        let (d, p1) = dict namespace p in
        case d ident of
          None \<Rightarrow> ([], p1\<lparr>err := Some (BadAlias (filename p1) ident namespace)\<rparr>)
        | Some full \<Rightarrow> (full, p1))"

definition peekTok :: "parser \<Rightarrow> item res" where
  "peekTok p =
     (case peeked p of
        None \<Rightarrow>
          (case nextItem (lex_p p) of
             Inl e \<Rightarrow> Inl e
           | Inr (tok, l) \<Rightarrow> Inr (tok, p\<lparr>lex_p := l, peeked := Some tok\<rparr>))
      | Some tok \<Rightarrow> Inr (tok, p))"

definition nextTok :: "parser \<Rightarrow> item res" where
  "nextTok p =
     (case peeked p of
        Some tok \<Rightarrow> Inr (tok, p\<lparr>peeked := None\<rparr>)
      | None \<Rightarrow>
          (case nextItem (lex_p p) of
             Inl e \<Rightarrow> Inl e
           | Inr (tok, l) \<Rightarrow> Inr (tok, p\<lparr>lex_p := l\<rparr>)))"

text \<open>
  \<open>expect\<close>: a no-op once an error is stored; else it takes the next item, and
  panics if the item is not of the expected kind.
\<close>

definition expect :: "itemType \<Rightarrow> parser \<Rightarrow> item res" where
  "expect expected p =
     (if err p \<noteq> None then Inr (item_zero, p)
      else
        pbind (nextTok p) (\<lambda>(tok, p1).
          if typ tok \<noteq> expected then Inl Poop
          else Inr (tok, p1)))"

definition expectName :: "parser \<Rightarrow> string res" where
  "expectName p = pbind (expect tNAME p) (\<lambda>(tok, p1). Inr (val tok, p1))"

text \<open>\<open>expectID\<close> fetches the next token as a hex ID.\<close>

definition expectID :: "parser \<Rightarrow> string res" where
  "expectID p =
     pbind (expect tNAME p) (\<lambda>(tok, p1).
       if err p1 \<noteq> None then Inr ([], p1)
       else if \<not> list_all (\<lambda>r. isHex (Some r)) (val tok) then
         Inr ([], p1\<lparr>err := Some (NotHex (filename p1) tok)\<rparr>)
       else Inr (val tok, p1))"

definition expectRef :: "string \<Rightarrow> parser \<Rightarrow> string res" where
  "expectRef defaultNamespace p =
     pbind (expect tCARET p) (\<lambda>(_, p1).
     pbind (expectID p1) (\<lambda>(ident, p2).
     pbind (peekTok p2) (\<lambda>(tok, p3).
     pbind (if typ tok = tCOLON then
              pbind (nextTok p3) (\<lambda>(_, p4).
              pbind (expect tNAME p4) (\<lambda>(tok1, p5). Inr (val tok1, p5)))
            else Inr (defaultNamespace, p3)) (\<lambda>(ns, p6).
     Inr (resolve ident ns p6)))))"

definition expectCell :: "parser \<Rightarrow> (string \<times> string) res" where
  "expectCell p =
     pbind (expect tLPAREN p) (\<lambda>(_, p1).
     pbind (peekTok p1) (\<lambda>(tok, p2).
     pbind (if typ tok = tCARET then expectRef ''c'' p2 else expectName p2) (\<lambda>(name, p3).
     pbind (peekTok p3) (\<lambda>(tok1, p4).
     pbind (if typ tok1 = tEQUAL then
              pbind (nextTok p4) (\<lambda>(_, p5).
              pbind (expect tLITERAL p5) (\<lambda>(lit, p6). Inr (val lit, p6)))
            else expectRef ''a'' p4) (\<lambda>(value, p7).
     pbind (expect tRPAREN p7) (\<lambda>(_, p8).
     Inr ((name, value), p8)))))))"

subsection \<open>What every parser method preserves\<close>

text \<open>
  \<open>entries p ns k\<close> is the value stored for id \<open>k\<close> in namespace \<open>ns\<close>, if any. A
  namespace whose dictionary is empty has no entries, like one that does not exist.
\<close>

definition entries :: "parser \<Rightarrow> string \<Rightarrow> string \<Rightarrow> string option" where
  "entries p ns k = (case dicts p ns of None \<Rightarrow> None | Some d \<Rightarrow> d k)"

definition parser_measure :: "parser \<Rightarrow> nat" where
  "parser_measure p = lex_measure (lex_p p) + (case peeked p of None \<Rightarrow> 0 | Some _ \<Rightarrow> 1)"

text \<open>
  \<open>advances p p'\<close>: from \<open>p\<close> to \<open>p'\<close> no token was given back, a stored error was
  kept as it is, and no dictionary entry was written.
\<close>

definition advances :: "parser \<Rightarrow> parser \<Rightarrow> bool" where
  "advances p p' \<longleftrightarrow>
     parser_measure p' \<le> parser_measure p \<and>
     (err p \<noteq> None \<longrightarrow> err p' = err p) \<and>
     entries p' = entries p \<and>
     filename p' = filename p"

lemma entries_update [simp]:
  "entries (p\<lparr>lex_p := l\<rparr>) = entries p"
  "entries (p\<lparr>peeked := t\<rparr>) = entries p"
  "entries (p\<lparr>err := e\<rparr>) = entries p"
  by (rule ext, rule ext, simp add: entries_def)+

lemma parser_measure_update [simp]:
  "parser_measure (p\<lparr>err := e\<rparr>) = parser_measure p"
  "parser_measure (p\<lparr>dicts := d\<rparr>) = parser_measure p"
  by (simp_all add: parser_measure_def)

lemma advances_refl [simp]: "advances p p"
  by (simp add: advances_def)

lemma advances_trans: "advances p p1 \<Longrightarrow> advances p1 p2 \<Longrightarrow> advances p p2"
  by (auto simp: advances_def)

lemma dict_advances: "dict ns p = (d, p') \<Longrightarrow> advances p p' \<and> err p' = err p"
  by (auto simp: dict_def advances_def entries_def fun_eq_iff
      split: option.splits if_splits)

lemma dict_value: "dict ns p = (d, p') \<Longrightarrow> d k = entries p ns k \<and> dicts p' ns = Some d"
  by (auto simp: dict_def entries_def split: option.splits)

lemma resolve_advances: "resolve i ns p = (s, p') \<Longrightarrow> advances p p'"
  by (auto simp: resolve_def advances_def Let_def parser_measure_def split: if_splits prod.splits option.splits
      dest!: dict_advances)

lemma peekTok_advances:
  "peekTok p = Inr (t, p') \<Longrightarrow> advances p p' \<and> err p' = err p \<and> peeked p' = Some t"
  by (auto simp: peekTok_def advances_def parser_measure_def
      split: option.splits sum.splits dest!: nextItem_lex_measure)

lemma nextTok_advances:
  "nextTok p = Inr (t, p') \<Longrightarrow>
     advances p p' \<and> err p' = err p \<and> parser_measure p' < parser_measure p"
  by (auto simp: nextTok_def advances_def parser_measure_def
      split: option.splits sum.splits dest!: nextItem_lex_measure)

lemma expect_advances:
  "expect e p = Inr (t, p') \<Longrightarrow>
     advances p p' \<and> err p' = err p \<and>
     (err p = None \<longrightarrow> parser_measure p' < parser_measure p \<and> typ t = e)"
  by (auto simp: expect_def split: if_splits dest!: pbind_Inr nextTok_advances)

lemma expectName_advances:
  "expectName p = Inr (s, p') \<Longrightarrow> advances p p'"
  by (auto simp: expectName_def dest!: pbind_Inr expect_advances)

lemma expectID_advances:
  "expectID p = Inr (s, p') \<Longrightarrow> advances p p'"
  by (auto simp: expectID_def advances_def
      split: if_splits dest!: pbind_Inr expect_advances)

lemma expectRef_advances:
  "expectRef ns p = Inr (s, p') \<Longrightarrow> advances p p'"
  unfolding expectRef_def
  by (auto simp: advances_def split: if_splits
      dest!: pbind_Inr expect_advances expectID_advances peekTok_advances nextTok_advances
             resolve_advances)


lemma expectCell_advances:
  "expectCell p = Inr (c, p') \<Longrightarrow>
     advances p p' \<and> (err p = None \<longrightarrow> parser_measure p' < parser_measure p)"
  unfolding expectCell_def
  by (auto simp: advances_def split: if_splits
      dest!: pbind_Inr expect_advances expectRef_advances expectName_advances
             peekTok_advances nextTok_advances)

text \<open>\<open>expectCells\<close> parses 0 or more cells; at an error it returns \<open>nil\<close>.\<close>

function expectCells_loop :: "(string \<rightharpoonup> string) \<Rightarrow> parser \<Rightarrow> (string \<rightharpoonup> string) res" where
  "expectCells_loop out p =
     pbind (peekTok p) (\<lambda>(tok, p1).
       if typ tok \<noteq> tLPAREN then Inr (out, p1)
       else
         pbind (expectCell p1) (\<lambda>(cell, p2).
           if err p2 \<noteq> None then Inr (Map.empty, p2)
           else expectCells_loop (out(fst cell \<mapsto> snd cell)) p2))"
  by pat_completeness auto
termination
  by (relation "measure (\<lambda>(out, p). parser_measure p)")
     (auto simp: advances_def dest!: peekTok_advances expectCell_advances)

declare expectCells_loop.simps [simp del]

definition expectCells :: "parser \<Rightarrow> (string \<rightharpoonup> string) res" where
  "expectCells p = expectCells_loop Map.empty p"

definition expectMetadict :: "parser \<Rightarrow> (string \<rightharpoonup> string) res" where
  "expectMetadict p =
     pbind (expect tLANGLE p) (\<lambda>(_, p1).
     pbind (expectCells p1) (\<lambda>(cells, p2).
     pbind (expect tRANGLE p2) (\<lambda>(_, p3).
     Inr (cells, p3))))"

text \<open>
  \<open>expectDict\<close>, in two parts. \<open>expectDict_cells\<close> is the function up to and
  including \<open>p.expect(tRANGLE)\<close>: it returns the scope and the cells, which are
  gathered in a map of their own. \<open>expectDict\<close> then copies the cells into the
  dictionary of the scope, if no error is stored. Ranging over a map visits each
  key once, so the copy is \<open>targ ++ cells\<close> in any order.
\<close>

definition expectDict_cells :: "parser \<Rightarrow> (string \<times> (string \<rightharpoonup> string)) res" where
  "expectDict_cells p =
     pbind (expect tLANGLE p) (\<lambda>(_, p1).
     pbind (peekTok p1) (\<lambda>(tok, p2).
     pbind (if typ tok = tLANGLE then
              pbind (expectMetadict p2) (\<lambda>(meta, p3).
                Inr ((case meta ''a'' of Some a \<Rightarrow> a | None \<Rightarrow> ''a''), p3))
            else Inr (''a'', p2)) (\<lambda>(scope, p4).
     pbind (expectCells p4) (\<lambda>(cells, p5).
     pbind (expect tRANGLE p5) (\<lambda>(_, p6).
     Inr ((scope, cells), p6))))))"

definition expectDict :: "parser \<Rightarrow> unit res" where
  "expectDict p =
     pbind (expectDict_cells p) (\<lambda>((scope, cells), p6).
     if err p6 = None then
       (let (targ, p7) = dict scope p6
        in Inr ((), p7\<lparr>dicts := (dicts p7)(scope \<mapsto> targ ++ cells)\<rparr>))
     else Inr ((), p6))"

text \<open>
  \<open>expectOID\<close>: the scope is empty when none is written; \<open>defaultNamespace\<close> is only
  the namespace in which a scope given as a reference is resolved.
\<close>

definition expectOID :: "string \<Rightarrow> parser \<Rightarrow> (string \<times> string) res" where
  "expectOID defaultNamespace p =
     pbind (expectID p) (\<lambda>(name, p1).
     pbind (peekTok p1) (\<lambda>(colon, p2).
     if typ colon = tCOLON then
       pbind (nextTok p2) (\<lambda>(_, p3).
       pbind (peekTok p3) (\<lambda>(tok, p4).
       pbind (if typ tok = tCARET then expectRef defaultNamespace p4
              else pbind (expect tNAME p4) (\<lambda>(t, p5). Inr (val t, p5))) (\<lambda>(scope, p6).
       Inr ((name, scope), p6))))
     else Inr ((name, []), p2)))"

definition expectRow :: "string \<Rightarrow> parser \<Rightarrow> (string \<times> (string \<rightharpoonup> string)) res" where
  "expectRow rowScope p =
     pbind (expect tLSQUARE p) (\<lambda>(_, p1).
     pbind (expectOID rowScope p1) (\<lambda>(oid, p2).
     pbind (expectCells p2) (\<lambda>(cells, p3).
     pbind (expect tRSQUARE p3) (\<lambda>(_, p4).
     Inr ((fst oid, cells), p4)))))"

text \<open>
  \<open>expectTable\<close>, in three parts. The first loop skips to the end of the metatable:
  it returns \<open>False\<close> where the source returns \<open>toid, Table{}\<close> on a stored error,
  and \<open>True\<close> at the closing brace.
\<close>

function expectTable_skip :: "parser \<Rightarrow> bool res" where
  "expectTable_skip p =
     (if err p \<noteq> None then Inr (False, p)
      else
        pbind (nextTok p) (\<lambda>(tok, p1).
          if typ tok = tRBRACE then Inr (True, p1)
          else expectTable_skip p1))"
  by pat_completeness auto
termination
  by (relation "measure parser_measure") (auto dest!: nextTok_advances)

declare expectTable_skip.simps [simp del]

text \<open>
  The loop over the rows has no \<open>default\<close> case and does not look at \<open>p.err\<close>: on
  any token other than \<open>}\<close>, \<open>[\<close> and a name it goes round without reading
  anything. It may run forever, and \<open>None\<close> is the run that does not return.
  The \<open>fmt.Printf\<close> of the name case writes to standard output only.
\<close>

partial_function (option) expectTable_rows ::
  "string \<Rightarrow> string \<Rightarrow> Table \<Rightarrow> parser \<Rightarrow> (string \<times> Table) res option" where
  "expectTable_rows tscope toid tab p =
     (case peekTok p of
        Inl e \<Rightarrow> Some (Inl e)
      | Inr (tok, p1) \<Rightarrow>
          if typ tok = tRBRACE then
            (case nextTok p1 of
               Inl e \<Rightarrow> Some (Inl e)
             | Inr (_, p2) \<Rightarrow> Some (Inr ((toid, tab), p2)))
          else if typ tok = tLSQUARE then
            (case expectRow tscope p1 of
               Inl e \<Rightarrow> Some (Inl e)
             | Inr ((rowID, rowData), p2) \<Rightarrow>
                 expectTable_rows tscope toid (tab\<lparr>rows := (rows tab)(rowID \<mapsto> rowData)\<rparr>) p2)
          else if typ tok = tNAME then
            (case nextTok p1 of
               Inl e \<Rightarrow> Some (Inl e)
             | Inr (_, p2) \<Rightarrow> expectTable_rows tscope toid tab p2)
          else expectTable_rows tscope toid tab p1)"

text \<open>\<open>fmt.Sprintf("%s:%s", toid, tscope)\<close>.\<close>

definition coalesce :: "string \<Rightarrow> string \<Rightarrow> string" where
  "coalesce toid tscope = toid @ '':'' @ tscope"

definition expectTable :: "parser \<Rightarrow> (string \<times> Table) res option" where
  "expectTable p =
     (let tab = \<lparr>meta = Map.empty, rows = Map.empty\<rparr> in
      case expect tLBRACE p of
        Inl e \<Rightarrow> Some (Inl e)
      | Inr (_, p1) \<Rightarrow>
      (case expectOID ''c'' p1 of
        Inl e \<Rightarrow> Some (Inl e)
      | Inr ((toid0, tscope), p2) \<Rightarrow>
      let toid = coalesce toid0 tscope in
      (case peekTok p2 of
        Inl e \<Rightarrow> Some (Inl e)
      | Inr (tok, p3) \<Rightarrow>
          if typ tok = tLBRACE then
            (case nextTok p3 of
               Inl e \<Rightarrow> Some (Inl e)
             | Inr (_, p4) \<Rightarrow>
            (case expectCells p4 of
               Inl e \<Rightarrow> Some (Inl e)
             | Inr (m, p5) \<Rightarrow>
            (case expectTable_skip p5 of
               Inl e \<Rightarrow> Some (Inl e)
             | Inr (skipped, p6) \<Rightarrow>
                 if \<not> skipped then Some (Inr ((toid, Table_zero), p6))
                 else expectTable_rows tscope toid (tab\<lparr>meta := m\<rparr>) p6)))
          else expectTable_rows tscope toid tab p3)))"

text \<open>
  \<open>expectGroup\<close>. The dict constructs of a group write to the dictionaries of the
  parser at once, as everywhere else.
\<close>

partial_function (option) expectGroup_loop ::
  "(string \<rightharpoonup> Table) \<Rightarrow> parser \<Rightarrow> (string \<rightharpoonup> Table) res option" where
  "expectGroup_loop tabs p =
     (case peekTok p of
        Inl e \<Rightarrow> Some (Inl e)
      | Inr (tok, p1) \<Rightarrow>
          if typ tok = tEOF then Some (Inr (Map.empty, p1))
          else if typ tok = tLANGLE then
            (case expectDict p1 of
               Inl e \<Rightarrow> Some (Inl e)
             | Inr (_, p2) \<Rightarrow>
                 if err p2 \<noteq> None then Some (Inr (tabs, p2))
                 else expectGroup_loop tabs p2)
          else if typ tok = tLSQUARE then
            (case expectRow ''c'' p1 of
               Inl e \<Rightarrow> Some (Inl e)
             | Inr (_, p2) \<Rightarrow>
                 if err p2 \<noteq> None then Some (Inr (tabs, p2))
                 else expectGroup_loop tabs p2)
          else if typ tok = tLBRACE then
            (case expectTable p1 of
               None \<Rightarrow> None
             | Some (Inl e) \<Rightarrow> Some (Inl e)
             | Some (Inr ((toid, tab), p2)) \<Rightarrow>
                 if err p2 \<noteq> None then Some (Inr (tabs(toid \<mapsto> tab), p2))
                 else expectGroup_loop (tabs(toid \<mapsto> tab)) p2)
          else if typ tok = tGROUPCOMMIT then
            (case expect tGROUPCOMMIT p1 of
               Inl e \<Rightarrow> Some (Inl e)
             | Inr (_, p2) \<Rightarrow> Some (Inr (tabs, p2)))
          else if typ tok = tGROUPABORT then
            (case expect tGROUPABORT p1 of
               Inl e \<Rightarrow> Some (Inl e)
             | Inr (_, p2) \<Rightarrow> Some (Inr (Map.empty, p2)))
          else Some (Inr (tabs, p1\<lparr>err := Some (Unexpected (filename p1) tok)\<rparr>)))"

definition expectGroup :: "parser \<Rightarrow> (string \<rightharpoonup> Table) res option" where
  "expectGroup p =
     (case expect tGROUPSTART p of
        Inl e \<Rightarrow> Some (Inl e)
      | Inr (_, p1) \<Rightarrow> expectGroup_loop Map.empty p1)"

text \<open>
  \<open>Parse\<close> returns the tables and \<open>p.err\<close>. What \<open>expectGroup\<close> returns is dropped
  (\<open>_ = p.expectGroup()\<close>).
\<close>

partial_function (option) Parse_loop ::
  "(string \<rightharpoonup> Table) \<Rightarrow> parser \<Rightarrow> (panic + (string \<rightharpoonup> Table) \<times> perror option) option" where
  "Parse_loop tabs p =
     (case peekTok p of
        Inl e \<Rightarrow> Some (Inl e)
      | Inr (tok, p1) \<Rightarrow>
          if typ tok = tEOF then Some (Inr (tabs, err p1))
          else if typ tok = tLANGLE then
            (case expectDict p1 of
               Inl e \<Rightarrow> Some (Inl e)
             | Inr (_, p2) \<Rightarrow>
                 if err p2 \<noteq> None then Some (Inr (tabs, err p2))
                 else Parse_loop tabs p2)
          else if typ tok = tLSQUARE then
            (case expectRow ''c'' p1 of
               Inl e \<Rightarrow> Some (Inl e)
             | Inr (_, p2) \<Rightarrow>
                 if err p2 \<noteq> None then Some (Inr (tabs, err p2))
                 else Parse_loop tabs p2)
          else if typ tok = tLBRACE then
            (case expectTable p1 of
               None \<Rightarrow> None
             | Some (Inl e) \<Rightarrow> Some (Inl e)
             | Some (Inr ((toid, tab), p2)) \<Rightarrow>
                 if err p2 \<noteq> None then Some (Inr (tabs(toid \<mapsto> tab), err p2))
                 else Parse_loop (tabs(toid \<mapsto> tab)) p2)
          else if typ tok = tGROUPSTART then
            (case expectGroup p1 of
               None \<Rightarrow> None
             | Some (Inl e) \<Rightarrow> Some (Inl e)
             | Some (Inr (_, p2)) \<Rightarrow>
                 if err p2 \<noteq> None then Some (Inr (tabs, err p2))
                 else Parse_loop tabs p2)
          else Some (Inr (tabs, Some (Unexpected (filename p1) tok))))"

definition Parse :: "parser \<Rightarrow> (panic + (string \<rightharpoonup> Table) \<times> perror option) option" where
  "Parse p = Parse_loop Map.empty p"

text \<open>\<open>slurp\<close> without the file read: the parse of the bytes of a file.\<close>

definition slurp :: "string \<Rightarrow> string \<Rightarrow> (panic + (string \<rightharpoonup> Table) \<times> perror option) option" where
  "slurp fname raw = Parse (NewParser fname (newLexer raw))"

declare expectTable_rows.simps [code] expectGroup_loop.simps [code] Parse_loop.simps [code]

section \<open>What the parser methods preserve, continued\<close>

lemmas expectTable_rows_induct =
  expectTable_rows.raw_induct [rotated 1, consumes 1, case_names step]

lemma expectCells_loop_advances:
  "expectCells_loop out p = Inr (c, p') \<Longrightarrow> advances p p'"
proof (induction out p rule: expectCells_loop.induct)
  case (1 out p)
  from "1.prems" obtain tok p1 where pk: "peekTok p = Inr (tok, p1)"
    by (subst (asm) expectCells_loop.simps) (auto dest!: pbind_Inr)
  note a1 = peekTok_advances [OF pk]
  show ?case
  proof (cases "typ tok \<noteq> tLPAREN")
    case True
    with "1.prems" pk a1 show ?thesis
      by (subst (asm) expectCells_loop.simps) simp
  next
    case False
    with "1.prems" pk obtain cell p2 where ce: "expectCell p1 = Inr (cell, p2)"
      by (subst (asm) expectCells_loop.simps) (auto dest!: pbind_Inr)
    note a2 = expectCell_advances [OF ce]
    show ?thesis
    proof (cases "err p2 \<noteq> None")
      case True
      with "1.prems" pk ce False have "p' = p2"
        by (subst (asm) expectCells_loop.simps) simp
      with a1 a2 show ?thesis by (blast intro: advances_trans)
    next
      case e: False
      with "1.prems" pk ce False
      have "expectCells_loop (out(fst cell \<mapsto> snd cell)) p2 = Inr (c, p')"
        by (subst (asm) expectCells_loop.simps) simp
      from "1.IH" [OF pk refl False ce refl e this] a1 a2
      show ?thesis by (blast intro: advances_trans)
    qed
  qed
qed


lemma expectCells_advances: "expectCells p = Inr (c, p') \<Longrightarrow> advances p p'"
  unfolding expectCells_def by (rule expectCells_loop_advances)

lemma expectMetadict_advances: "expectMetadict p = Inr (c, p') \<Longrightarrow> advances p p'"
  unfolding expectMetadict_def
  by (auto simp: advances_def dest!: pbind_Inr expect_advances expectCells_advances)

lemma expectDict_cells_advances: "expectDict_cells p = Inr (sc, p') \<Longrightarrow> advances p p'"
  unfolding expectDict_cells_def
  by (auto simp: advances_def split: if_splits
      dest!: pbind_Inr expect_advances peekTok_advances expectMetadict_advances
             expectCells_advances)

lemma expectOID_advances: "expectOID ns p = Inr (oid, p') \<Longrightarrow> advances p p'"
  unfolding expectOID_def
  by (auto simp: advances_def split: if_splits
      dest!: pbind_Inr expectID_advances peekTok_advances nextTok_advances
             expectRef_advances expect_advances)

lemma expectRow_advances: "expectRow rs p = Inr (r, p') \<Longrightarrow> advances p p'"
  unfolding expectRow_def
  by (auto simp: advances_def
      dest!: pbind_Inr expect_advances expectOID_advances expectCells_advances)

lemma expectTable_skip_advances: "expectTable_skip p = Inr (b, p') \<Longrightarrow> advances p p'"
proof (induction p rule: expectTable_skip.induct)
  case (1 p)
  show ?case
  proof (cases "err p \<noteq> None")
    case True
    with "1.prems" show ?thesis by (subst (asm) expectTable_skip.simps) simp
  next
    case False
    with "1.prems" obtain tok p1 where nt: "nextTok p = Inr (tok, p1)"
      by (subst (asm) expectTable_skip.simps) (auto dest!: pbind_Inr)
    note a1 = nextTok_advances [OF nt]
    show ?thesis
    proof (cases "typ tok = tRBRACE")
      case True
      with "1.prems" False nt a1 show ?thesis
        by (subst (asm) expectTable_skip.simps) simp
    next
      case nb: False
      with "1.prems" False nt have "expectTable_skip p1 = Inr (b, p')"
        by (subst (asm) expectTable_skip.simps) simp
      from "1.IH" [OF False nt refl nb this] a1 show ?thesis
        by (blast intro: advances_trans)
    qed
  qed
qed

lemma expectTable_rows_advances_aux:
  "expectTable_rows tscope toid tab p = Some y \<Longrightarrow> \<forall>r p'. y = Inr (r, p') \<longrightarrow> advances p p'"
proof (induct rule: expectTable_rows_induct)
  case (step rows' tscope toid tab p y)
  show ?case
  proof (intro allI impI)
    fix r p'
    assume y: "y = Inr (r, p')"
    from step(2) y obtain tok p1 where pk: "peekTok p = Inr (tok, p1)"
      by (auto split: sum.splits)
    note a1 = peekTok_advances [OF pk]
    consider (close) "typ tok = tRBRACE"
      | (row) "typ tok \<noteq> tRBRACE" "typ tok = tLSQUARE"
      | (name) "typ tok \<noteq> tRBRACE" "typ tok \<noteq> tLSQUARE" "typ tok = tNAME"
      | (other) "typ tok \<noteq> tRBRACE" "typ tok \<noteq> tLSQUARE" "typ tok \<noteq> tNAME"
      by blast
    then show "advances p p'"
    proof cases
      case close
      with step(2) y pk have "\<exists>t. nextTok p1 = Inr (t, p')"
        by (auto split: sum.splits)
      with a1 show ?thesis by (blast intro: advances_trans dest: nextTok_advances)
    next
      case row
      with step(2) y pk obtain rw p2 where
        er: "expectRow tscope p1 = Inr (rw, p2)" and
        rec: "rows' tscope toid (tab\<lparr>rows := (rows tab)(fst rw \<mapsto> snd rw)\<rparr>) p2 = Some (Inr (r, p'))"
        by (auto split: sum.splits)
      from step(1) [OF rec] a1 expectRow_advances [OF er] show ?thesis
        by (blast intro: advances_trans)
    next
      case name
      with step(2) y pk obtain t p2 where
        nt: "nextTok p1 = Inr (t, p2)" and rec: "rows' tscope toid tab p2 = Some (Inr (r, p'))"
        by (auto split: sum.splits)
      from step(1) [OF rec] a1 nextTok_advances [OF nt] show ?thesis
        by (blast intro: advances_trans)
    next
      case other
      with step(2) y pk have rec: "rows' tscope toid tab p1 = Some (Inr (r, p'))"
        by auto
      from step(1) [OF rec] a1 show ?thesis by (blast intro: advances_trans)
    qed
  qed
qed

lemma expectTable_rows_advances:
  "expectTable_rows tscope toid tab p = Some (Inr (r, p')) \<Longrightarrow> advances p p'"
  using expectTable_rows_advances_aux by blast

lemma expectTable_advances:
  "expectTable p = Some (Inr (r, p')) \<Longrightarrow> advances p p'"
  unfolding expectTable_def Let_def
  by (auto simp: advances_def split: sum.splits if_splits
      dest!: expect_advances expectOID_advances peekTok_advances nextTok_advances
             expectCells_advances expectTable_skip_advances expectTable_rows_advances)

text \<open>The copy at the end of \<open>expectDict\<close>.\<close>

definition store_cells :: "string \<Rightarrow> (string \<rightharpoonup> string) \<Rightarrow> parser \<Rightarrow> parser" where
  "store_cells ns cells p =
     (snd (dict ns p))\<lparr>dicts := (dicts (snd (dict ns p)))(ns \<mapsto> fst (dict ns p) ++ cells)\<rparr>"

lemma expectDict_eq:
  "expectDict_cells p = Inr ((ns, cells), p6) \<Longrightarrow>
     expectDict p = Inr ((), if err p6 = None then store_cells ns cells p6 else p6)"
  unfolding expectDict_def store_cells_def
  by (simp add: split_beta Let_def)

lemma expectDict_Inr:
  assumes "expectDict p = Inr (u, p')"
  shows "\<exists>ns cells p6. expectDict_cells p = Inr ((ns, cells), p6) \<and>
           p' = (if err p6 = None then store_cells ns cells p6 else p6)"
proof -
  from assms obtain x p6 where c: "expectDict_cells p = Inr (x, p6)"
    unfolding expectDict_def by (auto dest!: pbind_Inr)
  obtain ns cells where x: "x = (ns, cells)" by (cases x) auto
  from expectDict_eq [OF c [unfolded x]] assms c x show ?thesis by auto
qed

lemma store_cells_err [simp]: "err (store_cells ns cells p) = err p"
  by (simp add: store_cells_def dict_def split: option.splits)

lemma store_cells_dicts:
  "dicts (store_cells ns cells p) ns = Some ((\<lambda>k. entries p ns k) ++ cells)"
  by (auto simp: store_cells_def dict_def entries_def split: option.splits)

lemma expectDict_sticky:
  assumes "expectDict p = Inr (u, p')" and "err p \<noteq> None"
  shows "err p' = err p"
proof -
  from expectDict_Inr [OF assms(1)] obtain ns cells p6
    where c: "expectDict_cells p = Inr ((ns, cells), p6)"
      and p': "p' = (if err p6 = None then store_cells ns cells p6 else p6)"
    by blast
  from expectDict_cells_advances [OF c] assms(2) have "err p6 = err p"
    by (simp add: advances_def)
  with p' assms(2) show ?thesis by simp
qed

lemma expectCells_loop_acc:
  "expectCells_loop a p = Inr (c, p') \<Longrightarrow> err p' = None \<Longrightarrow>
     expectCells_loop (out ++ a) p = Inr (out ++ c, p')"
proof (induction a p rule: expectCells_loop.induct)
  case (1 a p)
  from "1.prems"(1) obtain tok p1 where pk: "peekTok p = Inr (tok, p1)"
    by (subst (asm) expectCells_loop.simps) (auto dest!: pbind_Inr)
  show ?case
  proof (cases "typ tok \<noteq> tLPAREN")
    case True
    with "1.prems"(1) pk have "c = a" "p' = p1"
      by (subst (asm) expectCells_loop.simps, simp)+
    with True pk show ?thesis by (subst expectCells_loop.simps) simp
  next
    case False
    with "1.prems"(1) pk obtain cell p2 where ce: "expectCell p1 = Inr (cell, p2)"
      by (subst (asm) expectCells_loop.simps) (auto dest!: pbind_Inr)
    show ?thesis
    proof (cases "err p2 \<noteq> None")
      case True
      with "1.prems"(1) pk ce False have "p' = p2"
        by (subst (asm) expectCells_loop.simps) simp
      with True "1.prems"(2) show ?thesis by simp
    next
      case e: False
      with "1.prems"(1) pk ce False
      have "expectCells_loop (a(fst cell \<mapsto> snd cell)) p2 = Inr (c, p')"
        by (subst (asm) expectCells_loop.simps) simp
      from "1.IH" [OF pk refl False ce refl e this "1.prems"(2)]
      have "expectCells_loop (out ++ a(fst cell \<mapsto> snd cell)) p2 = Inr (out ++ c, p')" .
      with pk ce False e show ?thesis
        by (subst expectCells_loop.simps) simp
    qed
  qed
qed

lemma store_cells_entries:
  "entries (store_cells ns cells p) n k =
     (if n = ns \<and> cells k \<noteq> None then cells k else entries p n k)"
  by (auto simp: store_cells_def dict_def entries_def map_add_def split: option.splits)

lemma resolve_entry:
  "err q = None \<Longrightarrow> entries q n k = Some v \<Longrightarrow> resolve k n q = (v, q)"
  by (auto simp: resolve_def dict_def entries_def split: option.splits)

section \<open>Hex ids\<close>

text \<open>
  A hex id: the strings that the loop of \<open>expectID\<close> lets through, and the strings
  that \<open>gatherID\<close> collects.
\<close>

definition hex_id :: "string \<Rightarrow> bool" where
  "hex_id s = list_all (\<lambda>r. isHex (Some r)) s"

lemma gatherID_loop_hex:
  "gatherID_loop i l = (i', l') \<Longrightarrow> hex_id i \<Longrightarrow> hex_id i' \<and> \<not> isHex (peek l')"
proof (induction i l rule: gatherID_loop.induct)
  case (1 ident l)
  show ?case
  proof (cases "isHex (peek l)")
    case False
    with "1.prems" show ?thesis by (subst (asm) gatherID_loop.simps) simp
  next
    case True
    then obtain c where c: "peek l = Some c" by (cases "peek l") auto
    with "1.prems"(1) True
    have "gatherID_loop (ident @ [c]) (snd (next_r l)) = (i', l')"
      by (subst (asm) gatherID_loop.simps) (simp add: Let_def del: isHex.simps)
    moreover from True c "1.prems"(2) have "hex_id (ident @ [c])"
      by (simp add: hex_id_def)
    ultimately show ?thesis using "1.IH" [OF refl] True c by (simp del: isHex.simps)
  qed
qed

lemma next_r_cursor:
  "peek l = Some c \<Longrightarrow>
     input (snd (next_r l)) = input l \<and> offset (curr (snd (next_r l))) = Suc (offset (curr l))"
  by (auto simp: peek_def next_r_def Let_def split: if_splits)

lemma gatherID_loop_takeWhile:
  "fst (gatherID_loop i l) =
     i @ takeWhile (\<lambda>r. isHex (Some r)) (drop (offset (curr l)) (input l))"
proof (induction i l rule: gatherID_loop.induct)
  case (1 ident l)
  show ?case
  proof (cases "peek l")
    case None
    then have "drop (offset (curr l)) (input l) = []" by (simp add: peek_def split: if_splits)
    with None show ?thesis by (subst gatherID_loop.simps) simp
  next
    case (Some c)
    then have d: "drop (offset (curr l)) (input l) = c # drop (Suc (offset (curr l))) (input l)"
      by (auto simp: peek_def Cons_nth_drop_Suc split: if_splits)
    show ?thesis
    proof (cases "isHex (Some c)")
      case False
      with Some d show ?thesis by (subst gatherID_loop.simps) (simp del: isHex.simps)
    next
      case True
      with Some "1.IH" [OF refl] next_r_cursor [OF Some] d show ?thesis
        by (subst gatherID_loop.simps) (simp del: isHex.simps)
    qed
  qed
qed

lemma gatherID_takeWhile:
  "gatherID l = (ident, l') \<Longrightarrow>
     ident = takeWhile (\<lambda>r. isHex (Some r)) (drop (offset (curr l)) (input l))"
  using gatherID_loop_takeWhile [of "[]" l] by (simp add: gatherID_def)

lemma expectID_hex: "expectID p = Inr (s, p') \<Longrightarrow> hex_id s"
  by (auto simp: expectID_def hex_id_def split: if_splits dest!: pbind_Inr)

lemma expectOID_hex: "expectOID ns p = Inr ((i, s), p') \<Longrightarrow> hex_id i"
  unfolding expectOID_def
  by (auto split: if_splits dest!: pbind_Inr dest: expectID_hex)

lemma expectID_not_hex:
  assumes "err p = None" and "nextTok p = Inr (tok, p1)" and "typ tok = tNAME"
    and "\<not> hex_id (val tok)"
  shows "expectID p = Inr ([], p1\<lparr>err := Some (NotHex (filename p) tok)\<rparr>)"
proof -
  from nextTok_advances [OF assms(2)] assms(1)
  have "err p1 = None" "filename p1 = filename p" by (simp_all add: advances_def)
  with assms show ?thesis by (simp add: expectID_def expect_def hex_id_def)
qed

lemma peekTok_err_update:
  "peekTok p = Inr (t, p') \<Longrightarrow> peekTok (p\<lparr>err := e\<rparr>) = Inr (t, p'\<lparr>err := e\<rparr>)"
  by (auto simp: peekTok_def split: option.splits sum.splits)

lemma expectOID_not_hex_no_scope:
  assumes "err p = None" and "nextTok p = Inr (tok, p1)" and "typ tok = tNAME"
    and "\<not> hex_id (val tok)" and "peekTok p1 = Inr (colon, p2)" and "typ colon \<noteq> tCOLON"
  shows "expectOID dn p = Inr (([], []), p2\<lparr>err := Some (NotHex (filename p) tok)\<rparr>)"
  unfolding expectOID_def expectID_not_hex [OF assms(1-4)]
  using peekTok_err_update [OF assms(5)] assms(6) by simp

lemma expectOID_not_hex:
  assumes "err p = None" and "nextTok p = Inr (tok, p1)" and "typ tok = tNAME"
    and "\<not> hex_id (val tok)" and "expectOID dn p = Inr ((i, s), p')"
  shows "i = [] \<and> err p' = Some (NotHex (filename p) tok)"
proof -
  let ?pe = "p1\<lparr>err := Some (NotHex (filename p) tok)\<rparr>"
  note id = expectID_not_hex [OF assms(1-4)]
  from assms(5) have
    "i = [] \<and> advances ?pe p'"
    unfolding expectOID_def id
    by (auto simp: advances_def split: if_splits
        dest!: pbind_Inr peekTok_advances nextTok_advances expectRef_advances expect_advances)
  then show ?thesis by (simp add: advances_def)
qed

section \<open>The key of a table\<close>

text \<open>
  The key under which \<open>Parse\<close> stores a table is the id and the scope that
  \<open>expectOID\<close> returned, joined by a colon. The id has no colon, so the two parts
  can be read back from the key.
\<close>

lemma hex_id_no_colon: "hex_id s \<Longrightarrow> CHR '':'' \<notin> set s"
  by (auto simp: hex_id_def list_all_iff)

lemma coalesce_inject:
  assumes "hex_id i1" and "hex_id i2"
  shows "(coalesce i1 s1 = coalesce i2 s2) = (i1 = i2 \<and> s1 = s2)"
proof -
  have "CHR '':'' \<notin> set i1 \<Longrightarrow> CHR '':'' \<notin> set i2 \<Longrightarrow>
          i1 @ CHR '':'' # s1 = i2 @ CHR '':'' # s2 \<Longrightarrow> i1 = i2 \<and> s1 = s2"
  proof (induction i1 arbitrary: i2)
    case Nil
    then show ?case by (cases i2) auto
  next
    case (Cons a i1)
    then show ?case by (cases i2) auto
  qed
  with assms [THEN hex_id_no_colon] show ?thesis
    by (auto simp: coalesce_def)
qed

lemma expectTable_rows_toid_aux:
  "expectTable_rows tscope toid tab p = Some y \<Longrightarrow>
     \<forall>k t p'. y = Inr ((k, t), p') \<longrightarrow> k = toid"
proof (induct rule: expectTable_rows_induct)
  case (step rows' tscope toid tab p y)
  show ?case
  proof (intro allI impI)
    fix k t p'
    assume y: "y = Inr ((k, t), p')"
    from step(2) y obtain tok p1 where pk: "peekTok p = Inr (tok, p1)"
      by (auto split: sum.splits)
    from step(2) y pk
    have "k = toid \<or> (\<exists>tab2 p2. rows' tscope toid tab2 p2 = Some (Inr ((k, t), p')))"
      by (auto split: sum.splits if_splits)
    with step(1) show "k = toid" by blast
  qed
qed

lemma expectTable_key:
  assumes "expectTable p = Some (Inr ((k, t), p'))"
  shows "\<exists>t0 p1 i s p2. expect tLBRACE p = Inr (t0, p1) \<and>
           expectOID ''c'' p1 = Inr ((i, s), p2) \<and> hex_id i \<and> k = coalesce i s"
proof -
  from assms obtain t0 p1 i s p2 where
    "expect tLBRACE p = Inr (t0, p1)" "expectOID ''c'' p1 = Inr ((i, s), p2)" "k = coalesce i s"
    unfolding expectTable_def Let_def
    by (auto split: sum.splits if_splits dest!: expectTable_rows_toid_aux)
  with expectOID_hex [of "''c''" p1 i s p2] show ?thesis by blast
qed

section \<open>The loop of a group\<close>





section \<open>Running the parser on given bytes\<close>

text \<open>
  The equations that unfold the scanner and the parser on concrete bytes. They are
  used with the weak congruence rules of \<open>let\<close>, pairs and \<open>pbind\<close>, so that an
  argument is evaluated before the function that takes it, and without splitting
  conditionals.
\<close>

lemma pbind_weak_cong: "m = m' \<Longrightarrow> pbind m f = pbind m' f"
  by simp

lemmas lexer_eval =
  newLexer_def nextItem.simps lexDefault.simps peek_def next_r_def emit_def emitErrorf_def
  syntaxError_def slice_def singles_def Let_def gatherID_def gatherID_loop.simps
  lexLiteral_def lexLiteral_loop.simps lexComment_def lexComment_loop.simps
  lexName_def lexName_loop.simps lexer_expect_def lexGroup_def

lemmas parser_eval_once =
  slurp_def Parse_def NewParser_def Parse_loop.simps peekTok_def nextTok_def expect_def
  expectName_def expectID_def expectRef_def expectCell_def expectCells_def
  expectCells_loop.simps expectMetadict_def expectDict_cells_def expectDict_def expectOID_def
  expectRow_def
  expectTable_skip.simps expectTable_def coalesce_def
  expectGroup_loop.simps expectGroup_def dict_def resolve_def item_zero_def position_zero_def
  Table_zero_def

lemmas parser_eval = parser_eval_once expectTable_rows.simps

section \<open>Groups\<close>

text \<open>
  Claim C1 (group atomicity): a group that ends in abort leaves neither its
  dictionary entry nor its table observable, and a group that ends in commit
  leaves both observable. The code does neither. In the first input the group
  defines the entry \<open>1 \<mapsto> x\<close> of namespace \<open>a\<close> and the table \<open>2\<close> and is aborted;
  the reference \<open>^1\<close> of the table \<open>3\<close> that follows still resolves to \<open>x\<close>, with no
  error. In the second input the same group is committed and its table \<open>2\<close> is
  not in the result.
\<close>

theorem C1_group_not_atomic:
  "slurp fname ''@$${1{@<(1=x)>{2}@$$}~~}@ {3[4(n^1)]}'' =
     Some (Inr ([''3:'' \<mapsto> \<lparr>meta = Map.empty, rows = [''4'' \<mapsto> [''n'' \<mapsto> ''x'']]\<rparr>], None)) \<and>
   slurp fname ''@$${1{@<(1=x)>{2}@$$}1}@'' = Some (Inr (Map.empty, None))"
  by (simp add: lexer_eval parser_eval split del: if_split
      cong: pbind_weak_cong let_weak_cong prod.case_cong_weak)

section \<open>A token of the wrong kind\<close>

text \<open>
  Claim C2: when the parser expects a token kind and finds another one, the parse
  returns an error value together with the tables completed before, without a
  panic. On the bytes \<open>{1}<\<close> the table \<open>1\<close> is complete and the dict construct
  lacks its closing \<open>>\<close>: \<open>expect\<close> meets the end of input and the run ends in
  \<open>panic("poop")\<close>; nothing is returned.
\<close>

theorem C2_missing_closer_panics:
  "slurp fname ''{1}<'' = Some (Inl Poop)"
  by (simp add: lexer_eval parser_eval split del: if_split
      cong: pbind_weak_cong let_weak_cong prod.case_cong_weak)

section \<open>Termination\<close>

text \<open>
  A parser is stuck in the rows loop of \<open>expectTable\<close> when the token it has peeked
  is none of the three the loop has a case for: the loop reads nothing and meets
  the same token again.
\<close>

definition rows_stuck :: "parser \<Rightarrow> bool" where
  "rows_stuck p =
     (case peeked p of
        None \<Rightarrow> False
      | Some tok \<Rightarrow> typ tok \<noteq> tRBRACE \<and> typ tok \<noteq> tLSQUARE \<and> typ tok \<noteq> tNAME)"

lemma expectTable_rows_stuck:
  assumes "rows_stuck p"
  shows "expectTable_rows tscope toid tab p = None"
proof (rule ccontr)
  assume "expectTable_rows tscope toid tab p \<noteq> None"
  then obtain y where "expectTable_rows tscope toid tab p = Some y" by auto
  then have "\<not> rows_stuck p"
  proof (induct rule: expectTable_rows_induct)
    case (step rows' tscope toid tab p y)
    show ?case
    proof
      assume st: "rows_stuck p"
      then obtain tok where tok: "peeked p = Some tok"
        "typ tok \<noteq> tRBRACE" "typ tok \<noteq> tLSQUARE" "typ tok \<noteq> tNAME"
        by (auto simp: rows_stuck_def split: option.splits)
      then have "peekTok p = Inr (tok, p)" by (simp add: peekTok_def)
      with step(2) tok have "rows' tscope toid tab p = Some y" by simp
      from step(1) [OF this] st show False by simp
    qed
  qed
  with assms show False by simp
qed

text \<open>
  Claim C3: for every finite input the parse terminates, also when an unresolved
  reference arises inside a table body. On the bytes \<open>{1[2(a^3)]}\<close> it does not:
  the reference \<open>^3\<close> does not resolve, \<open>expectRow\<close> comes back with the error
  stored and the token \<open>)\<close> peeked, and the rows loop of \<open>expectTable\<close>, which
  neither looks at the error nor has a case for \<open>)\<close>, goes round forever.
\<close>

theorem C3_rows_loop_runs_forever:
  "slurp fname ''{1[2(a^3)]}'' = None"
  apply (simp add: lexer_eval parser_eval_once split del: if_split
      cong: pbind_weak_cong let_weak_cong prod.case_cong_weak)
  apply (subst expectTable_rows.simps)
  apply (simp add: lexer_eval parser_eval_once split del: if_split
      cong: pbind_weak_cong let_weak_cong prod.case_cong_weak)
  apply (simp add: expectTable_rows_stuck rows_stuck_def)
  done

section \<open>The literal-only example\<close>

text \<open>
  Claim C4: parsing \<open><(name =Alice)>\<close> followed by
  \<open>{10{(owner=Alice)}[20(name=Bob)]}\<close> yields exactly one table, keyed \<open>10:c\<close>, with
  meta \<open>owner \<mapsto> Alice\<close> and the one row \<open>20\<close> of cells \<open>name \<mapsto> Bob\<close>. The parse
  succeeds with exactly that table, but under the key \<open>10:\<close>: the scope of an oid
  written without one is the empty string.
\<close>

theorem C4_table_key_has_empty_scope:
  "slurp fname ''<(name =Alice)>{10{(owner=Alice)}[20(name=Bob)]}'' =
     Some (Inr ([''10:'' \<mapsto> \<lparr>meta = [''owner'' \<mapsto> ''Alice''],
                              rows = [''20'' \<mapsto> [''name'' \<mapsto> ''Bob'']]\<rparr>], None))"
  by (simp add: lexer_eval parser_eval split del: if_split
      cong: pbind_weak_cong let_weak_cong prod.case_cong_weak)

section \<open>Dictionaries\<close>

text \<open>
  Claim C6 (last write wins), as the code has it: the cells of a dict construct
  are kept in a map of their own and stored at its closing \<open>>\<close>, so that the latest
  value written is the one \<open>resolve\<close> returns from the end of the construct on.

  \<^item> A dict construct that parses without error, with namespace \<open>ns\<close> and cells
    \<open>cells\<close>, stores its cells over the dictionary of \<open>ns\<close> and changes no other entry
    of any dictionary: after it an id of its cells has the value of \<open>cells\<close> in \<open>ns\<close>,
    whatever it had before, and every other (id, namespace) pair has the value it
    had before.
  \<^item> \<open>resolve\<close> returns the entry stored for the id and the namespace.
  \<^item> Inside a construct the map of the cells is built in the order of the cells:
    if the first cell read is \<open>(k1, v1)\<close> and the cells after it make the map \<open>rest\<close>,
    the loop started with \<open>out\<close> returns \<open>out(k1 \<mapsto> v1) ++ rest\<close>, in which a later
    cell for \<open>k1\<close> overrides \<open>v1\<close>, and \<open>v1\<close> overrides what \<open>out\<close> held.
  \<^item> No entry changes while a row or a table is read, nor while the cells of a
    dict construct are read: a reference in them resolves to the value stored by
    the last construct that was closed before.
\<close>

theorem C6_last_write_wins_between_constructs:
  "(expectDict_cells p = Inr ((ns, cells), p1) \<and> err p1 = None \<longrightarrow>
      (\<exists>p'. expectDict p = Inr ((), p') \<and> err p' = None \<and>
         (\<forall>n k. entries p' n k =
            (if n = ns \<and> cells k \<noteq> None then cells k else entries p n k)))) \<and>
   (err q = None \<and> entries q n k = Some v \<longrightarrow> resolve k n q = (v, q)) \<and>
   (peekTok c = Inr (tok, c1) \<and> typ tok = tLPAREN \<and>
    expectCell c1 = Inr ((k1, v1), c2) \<and> err c2 = None \<and>
    expectCells_loop Map.empty c2 = Inr (rest, c') \<and> err c' = None \<longrightarrow>
      expectCells_loop out c = Inr ((out(k1 \<mapsto> v1)) ++ rest, c')) \<and>
   (expectRow rowScope s = Inr (r, s') \<longrightarrow> entries s' = entries s) \<and>
   (expectTable u = Some (Inr (t, u')) \<longrightarrow> entries u' = entries u) \<and>
   (expectDict_cells d = Inr (x, d1) \<longrightarrow> entries d1 = entries d)"
proof (intro conjI impI)
  assume h: "expectDict_cells p = Inr ((ns, cells), p1) \<and> err p1 = None"
  let ?p' = "store_cells ns cells p1"
  from h have "expectDict p = Inr ((), ?p')" by (simp add: expectDict_eq)
  moreover from h have "entries p1 = entries p"
    by (auto dest!: expectDict_cells_advances simp: advances_def)
  ultimately show "\<exists>p'. expectDict p = Inr ((), p') \<and> err p' = None \<and>
         (\<forall>n k. entries p' n k =
            (if n = ns \<and> cells k \<noteq> None then cells k else entries p n k))"
    using h by (intro exI [of _ ?p']) (auto simp: store_cells_entries)
next
  assume "err q = None \<and> entries q n k = Some v"
  then show "resolve k n q = (v, q)" by (simp add: resolve_entry)
next
  assume h: "peekTok c = Inr (tok, c1) \<and> typ tok = tLPAREN \<and>
    expectCell c1 = Inr ((k1, v1), c2) \<and> err c2 = None \<and>
    expectCells_loop Map.empty c2 = Inr (rest, c') \<and> err c' = None"
  then have "expectCells_loop ((out(k1 \<mapsto> v1)) ++ Map.empty) c2 = Inr ((out(k1 \<mapsto> v1)) ++ rest, c')"
    by (intro expectCells_loop_acc) simp_all
  with h show "expectCells_loop out c = Inr ((out(k1 \<mapsto> v1)) ++ rest, c')"
    by (subst expectCells_loop.simps) simp
next
  assume "expectRow rowScope s = Inr (r, s')"
  from expectRow_advances [OF this] show "entries s' = entries s" by (simp add: advances_def)
next
  assume "expectTable u = Some (Inr (t, u'))"
  from expectTable_advances [OF this] show "entries u' = entries u" by (simp add: advances_def)
next
  assume "expectDict_cells d = Inr (x, d1)"
  from expectDict_cells_advances [OF this] show "entries d1 = entries d"
    by (simp add: advances_def)
qed

text \<open>
  The hypotheses hold on the bytes \<open><(1=x)><(1=y)>\<close> (two constructs: the id \<open>1\<close> is
  \<open>x\<close> after the first, still \<open>x\<close> while the cells of the second are read, and \<open>y\<close>
  after the second), on \<open>(1=x)(1=y)>\<close> (two cells of one construct), on the row
  \<open>[4(n=v)]\<close> and on the table \<open>{3[4(n=v)]}\<close>.
\<close>

theorem C6_last_write_wins_between_constructs_witness:
  "(\<exists>p1 p'. expectDict (NewParser ''f'' (newLexer ''<(1=x)><(1=y)>'')) = Inr ((), p1) \<and>
      expectDict p1 = Inr ((), p') \<and> entries p1 ''a'' ''1'' = Some ''x'' \<and>
      entries p' ''a'' ''1'' = Some ''y'' \<and> resolve ''1'' ''a'' p' = (''y'', p')) \<and>
   (\<exists>c'. expectCells_loop [''1'' \<mapsto> ''w''] (NewParser ''f'' (newLexer ''(1=x)(1=y)>'')) =
           Inr ([''1'' \<mapsto> ''y''], c')) \<and>
   (\<exists>r s'. expectRow [] (NewParser ''f'' (newLexer ''[4(n=v)]'')) = Inr (r, s') \<and>
      entries s' = entries (NewParser ''f'' (newLexer ''[4(n=v)]''))) \<and>
   (\<exists>t u'. expectTable (NewParser ''f'' (newLexer ''{3[4(n=v)]}'')) = Some (Inr (t, u')) \<and>
      entries u' = entries (NewParser ''f'' (newLexer ''{3[4(n=v)]}''))) \<and>
   (\<exists>p1 d1. expectDict (NewParser ''f'' (newLexer ''<(1=x)><(1=y)>'')) = Inr ((), p1) \<and>
      expectDict_cells p1 = Inr ((''a'', [''1'' \<mapsto> ''y'']), d1) \<and>
      entries d1 ''a'' ''1'' = Some ''x'')"
proof (intro conjI)
  let ?p = "NewParser ''f'' (newLexer ''<(1=x)><(1=y)>'')"
  let ?p1 = "snd (projr (expectDict ?p))"
  let ?c = "projr (expectDict_cells ?p1)"
  have 1: "expectDict ?p = Inr ((), ?p1)" "entries ?p1 ''a'' ''1'' = Some ''x''"
    by (simp_all add: entries_def lexer_eval parser_eval split del: if_split
        cong: pbind_weak_cong let_weak_cong prod.case_cong_weak)
  have 2: "expectDict_cells ?p1 = Inr ((''a'', [''1'' \<mapsto> ''y'']), snd ?c) \<and> err (snd ?c) = None"
    by (simp add: lexer_eval parser_eval split del: if_split
        cong: pbind_weak_cong let_weak_cong prod.case_cong_weak)
  from C6_last_write_wins_between_constructs [THEN conjunct1, rule_format, OF 2]
  obtain p' where p': "expectDict ?p1 = Inr ((), p')" "err p' = None"
    "entries p' ''a'' ''1'' = Some ''y''"
    by auto
  from C6_last_write_wins_between_constructs
    [THEN conjunct2, THEN conjunct1, rule_format, of p' "''a''" "''1''" "''y''"] p'
  have "resolve ''1'' ''a'' p' = (''y'', p')" by simp
  with 1 p' show "\<exists>p1 p'. expectDict ?p = Inr ((), p1) \<and>
      expectDict p1 = Inr ((), p') \<and> entries p1 ''a'' ''1'' = Some ''x'' \<and>
      entries p' ''a'' ''1'' = Some ''y'' \<and> resolve ''1'' ''a'' p' = (''y'', p')"
    by blast
  from C6_last_write_wins_between_constructs
    [THEN conjunct2, THEN conjunct2, THEN conjunct2, THEN conjunct2, THEN conjunct2,
     rule_format, OF 2 [THEN conjunct1]] 1
  have "entries (snd ?c) ''a'' ''1'' = Some ''x''" by simp
  with 1 2 show "\<exists>p1 d1. expectDict ?p = Inr ((), p1) \<and>
      expectDict_cells p1 = Inr ((''a'', [''1'' \<mapsto> ''y'']), d1) \<and>
      entries d1 ''a'' ''1'' = Some ''x''"
    by blast
next
  let ?q = "NewParser ''f'' (newLexer ''(1=x)(1=y)>'')"
  let ?r1 = "projr (peekTok ?q)"
  let ?r2 = "projr (expectCell (snd ?r1))"
  let ?r3 = "projr (expectCells_loop Map.empty (snd ?r2))"
  have h: "peekTok ?q = Inr (fst ?r1, snd ?r1) \<and> typ (fst ?r1) = tLPAREN \<and>
    expectCell (snd ?r1) = Inr ((''1'', ''x''), snd ?r2) \<and> err (snd ?r2) = None \<and>
    expectCells_loop Map.empty (snd ?r2) = Inr ([''1'' \<mapsto> ''y''], snd ?r3) \<and> err (snd ?r3) = None"
    by (simp add: lexer_eval parser_eval split del: if_split
        cong: pbind_weak_cong let_weak_cong prod.case_cong_weak)
  from C6_last_write_wins_between_constructs
    [THEN conjunct2, THEN conjunct2, THEN conjunct1, rule_format, OF h, of "[''1'' \<mapsto> ''w'']"]
  show "\<exists>c'. expectCells_loop [''1'' \<mapsto> ''w''] ?q = Inr ([''1'' \<mapsto> ''y''], c')"
    by simp
next
  let ?s = "NewParser ''f'' (newLexer ''[4(n=v)]'')"
  let ?r = "projr (expectRow [] ?s)"
  have h: "expectRow [] ?s = Inr (fst ?r, snd ?r)"
    by (simp add: lexer_eval parser_eval split del: if_split
        cong: pbind_weak_cong let_weak_cong prod.case_cong_weak)
  from C6_last_write_wins_between_constructs
    [THEN conjunct2, THEN conjunct2, THEN conjunct2, THEN conjunct1, rule_format, OF h] h
  show "\<exists>r s'. expectRow [] ?s = Inr (r, s') \<and> entries s' = entries ?s"
    by blast
next
  let ?u = "NewParser ''f'' (newLexer ''{3[4(n=v)]}'')"
  let ?r = "projr (the (expectTable ?u))"
  have h: "expectTable ?u = Some (Inr (fst ?r, snd ?r))"
    by (simp add: lexer_eval parser_eval split del: if_split
        cong: pbind_weak_cong let_weak_cong prod.case_cong_weak)
  from C6_last_write_wins_between_constructs
    [THEN conjunct2, THEN conjunct2, THEN conjunct2, THEN conjunct2, THEN conjunct1,
     rule_format, OF h] h
  show "\<exists>t u'. expectTable ?u = Some (Inr (t, u')) \<and> entries u' = entries ?u"
    by blast
qed

text \<open>
  Claim C6 as it is worded (a redefinition in the same construct or in a later
  one, then any resolve) does not hold of a reference that is read before the
  construct of the redefinition is closed. In \<open><(1=x)><(1=y)(2^1)>\<close> the reference
  \<open>^1\<close> comes after the cell \<open>(1=y)\<close> and resolves to \<open>x\<close>, the value of the construct
  before: the row of the table that follows reads \<open>2\<close> as \<open>x\<close>. In \<open><(1=x)(1=y)(2^1)>\<close>
  the id \<open>1\<close> has been given two values when \<open>^1\<close> is read, and does not resolve.
\<close>

theorem C6_stale_value_inside_construct:
  "slurp ''f'' ''<(1=x)><(1=y)(2^1)>{3[4(n^2)]}'' =
     Some (Inr ([''3:'' \<mapsto> \<lparr>meta = Map.empty, rows = [''4'' \<mapsto> [''n'' \<mapsto> ''x'']]\<rparr>], None)) \<and>
   slurp ''f'' ''<(1=x)(1=y)(2^1)>'' = Some (Inr (Map.empty, Some (BadAlias ''f'' ''1'' ''a'')))"
  by (simp add: lexer_eval parser_eval split del: if_split
      cong: pbind_weak_cong let_weak_cong prod.case_cong_weak)

text \<open>
  Claim C10 (error atomicity of a dict construct): when \<open>expectDict\<close> returns with
  an error stored, no (id, value) entry of any dictionary was added or changed by
  it. (Resolving a reference may create the empty dictionary of a namespace; that
  adds no entry.)
\<close>

theorem C10_dict_construct_error_atomic:
  assumes "expectDict p = Inr (u, p')" and "err p' \<noteq> None"
  shows "entries p' = entries p"
proof -
  from expectDict_Inr [OF assms(1)] obtain ns cells p6
    where c: "expectDict_cells p = Inr ((ns, cells), p6)"
      and p': "p' = (if err p6 = None then store_cells ns cells p6 else p6)"
    by blast
  from p' assms(2) have "p' = p6" by (cases "err p6 = None") simp_all
  with expectDict_cells_advances [OF c] show ?thesis by (simp add: advances_def)
qed

text \<open>
  On \<open><(1=x)(a^5)>\<close> the reference \<open>^5\<close> does not resolve: the construct returns
  with the error stored, and the entry \<open>1 \<mapsto> x\<close> of its first cell is not written.
\<close>

theorem C10_dict_construct_error_atomic_witness:
  "\<exists>p'. expectDict (NewParser ''f'' (newLexer ''<(1=x)(a^5)>'')) = Inr ((), p') \<and>
         err p' \<noteq> None \<and>
         entries p' = entries (NewParser ''f'' (newLexer ''<(1=x)(a^5)>''))"
proof -
  let ?p = "NewParser ''f'' (newLexer ''<(1=x)(a^5)>'')"
  have "\<exists>p'. expectDict ?p = Inr ((), p') \<and> err p' \<noteq> None"
    by (simp add: lexer_eval parser_eval split del: if_split
        cong: pbind_weak_cong let_weak_cong prod.case_cong_weak)
  then obtain p' where h: "expectDict ?p = Inr ((), p')" "err p' \<noteq> None" by blast
  from C10_dict_construct_error_atomic [OF h] h show ?thesis by blast
qed


section \<open>The sticky error\<close>

text \<open>
  Once an error is stored, \<open>expect\<close> consumes no token and returns the empty item,
  and \<open>resolve\<close> returns the empty string; both leave the parser as it is.
\<close>

lemma sticky_error_noop:
  assumes "err p = Some e"
  shows "expect expected p = Inr (item_zero, p) \<and> resolve ident namespace p = ([], p)"
  using assms by (simp add: expect_def resolve_def)

text \<open>
  Claim C9 (sticky error): once an error is stored every later \<open>expect\<close> and
  \<open>resolve\<close> is a no-op, so that the error stored first is the one returned to
  the caller. The code does not return it when the error is stored inside a
  table. In \<open>{1[2(^3=x)]}\<close> the reference \<open>^3\<close> of the row does not resolve: the
  row, read on its own, returns with this error stored; read in its table, the
  calls of \<open>expect\<close> that remain consume nothing, the rows loop of \<open>expectTable\<close>
  is left with a token it has no case for, and \<open>Parse\<close> never returns: the caller
  gets no error.
\<close>

theorem C9_stored_error_never_returned:
  "(\<exists>r p'. expectRow [] (NewParser fname (newLexer ''[2(^3=x)]}'')) = Inr (r, p') \<and>
       err p' = Some (BadAlias fname ''3'' ''c'')) \<and>
   slurp fname ''{1[2(^3=x)]}'' = None"
proof
  show "\<exists>r p'. expectRow [] (NewParser fname (newLexer ''[2(^3=x)]}'')) = Inr (r, p') \<and>
       err p' = Some (BadAlias fname ''3'' ''c'')"
    by (simp add: lexer_eval parser_eval split del: if_split
        cong: pbind_weak_cong let_weak_cong prod.case_cong_weak)
  show "slurp fname ''{1[2(^3=x)]}'' = None"
    apply (simp add: lexer_eval parser_eval_once split del: if_split
        cong: pbind_weak_cong let_weak_cong prod.case_cong_weak)
    apply (subst expectTable_rows.simps)
    apply (simp add: lexer_eval parser_eval_once split del: if_split
        cong: pbind_weak_cong let_weak_cong prod.case_cong_weak)
    apply (subst expectTable_rows.simps)
    apply (simp add: lexer_eval parser_eval_once split del: if_split
        cong: pbind_weak_cong let_weak_cong prod.case_cong_weak)
    apply (simp add: expectTable_rows_stuck rows_stuck_def)
    done
qed

section \<open>Ids that are not hexadecimal\<close>

text \<open>
  Claim C5 (hex validation), as the code has it. An id that stands on its own
  (the id of a table or of a row) is one name item, and \<open>expectID\<close> checks all of
  it: when the item has a character that is not a hex digit, \<open>expectID\<close> stores
  the error \<open>Not hex\<close> and returns the empty id, and so does \<open>expectOID\<close>, which
  returns at once when no colon follows. An id after \<open>^\<close> is not checked by the
  parser: the scanner makes its item with \<open>gatherID\<close>, which returns the longest
  run of hex digits at the cursor and leaves the character after the run to the
  next item.
\<close>

theorem C5_bare_id_not_hex:
  "(err p = None \<and> nextTok p = Inr (tok, p1) \<and> typ tok = tNAME \<and> \<not> hex_id (val tok) \<longrightarrow>
      expectID p = Inr ([], p1\<lparr>err := Some (NotHex (filename p) tok)\<rparr>) \<and>
      (\<forall>dn i s p'. expectOID dn p = Inr ((i, s), p') \<longrightarrow>
         i = [] \<and> err p' = Some (NotHex (filename p) tok)) \<and>
      (\<forall>dn colon p2. peekTok p1 = Inr (colon, p2) \<and> typ colon \<noteq> tCOLON \<longrightarrow>
         expectOID dn p = Inr (([], []), p2\<lparr>err := Some (NotHex (filename p) tok)\<rparr>))) \<and>
   (gatherID l = (ident, l') \<longrightarrow>
      ident = takeWhile (\<lambda>r. isHex (Some r)) (drop (offset (curr l)) (input l)) \<and>
      hex_id ident \<and> \<not> isHex (peek l'))"
proof (intro conjI impI allI)
  assume h: "err p = None \<and> nextTok p = Inr (tok, p1) \<and> typ tok = tNAME \<and> \<not> hex_id (val tok)"
  then show "expectID p = Inr ([], p1\<lparr>err := Some (NotHex (filename p) tok)\<rparr>)"
    by (simp add: expectID_not_hex)
  {
    fix dn i s p'
    assume "expectOID dn p = Inr ((i, s), p')"
    with h expectOID_not_hex [of p tok p1 dn i s p']
    show "i = []" and "err p' = Some (NotHex (filename p) tok)" by simp_all
  }
  fix dn colon p2
  assume "peekTok p1 = Inr (colon, p2) \<and> typ colon \<noteq> tCOLON"
  with h show "expectOID dn p = Inr (([], []), p2\<lparr>err := Some (NotHex (filename p) tok)\<rparr>)"
    by (simp add: expectOID_not_hex_no_scope)
next
  assume g: "gatherID l = (ident, l')"
  then show "ident = takeWhile (\<lambda>r. isHex (Some r)) (drop (offset (curr l)) (input l))"
    by (rule gatherID_takeWhile)
  from g have "hex_id ident \<and> \<not> isHex (peek l')"
    unfolding gatherID_def by (rule gatherID_loop_hex) (simp add: hex_id_def)
  then show "hex_id ident" and "\<not> isHex (peek l')" by simp_all
qed

text \<open>
  On the bytes \<open>1g}\<close> the first item is the name \<open>1g\<close>: \<open>expectID\<close> and \<open>expectOID\<close>
  store \<open>Not hex\<close>. On \<open>2g}\<close>, read after a \<open>^\<close>, \<open>gatherID\<close> returns \<open>2\<close> and stops
  before the \<open>g\<close>.
\<close>

theorem C5_bare_id_not_hex_witness:
  "(\<exists>tok p1. nextTok (NewParser ''f'' (newLexer ''1g}'')) = Inr (tok, p1) \<and> val tok = ''1g'' \<and>
      expectID (NewParser ''f'' (newLexer ''1g}'')) = Inr ([], p1\<lparr>err := Some (NotHex ''f'' tok)\<rparr>) \<and>
      (\<exists>p'. expectOID ''c'' (NewParser ''f'' (newLexer ''1g}'')) = Inr (([], []), p') \<and>
         err p' = Some (NotHex ''f'' tok))) \<and>
   (\<exists>l'. gatherID (newLexer ''2g}'') = (''2'', l') \<and> peek l' = Some CHR ''g'')"
proof
  let ?p = "NewParser ''f'' (newLexer ''1g}'')"
  let ?r = "projr (nextTok ?p)"
  let ?k = "projr (peekTok (snd ?r))"
  have h: "err ?p = None \<and> nextTok ?p = Inr (fst ?r, snd ?r) \<and> typ (fst ?r) = tNAME \<and>
           \<not> hex_id (val (fst ?r))"
    by (simp add: hex_id_def lexer_eval parser_eval split del: if_split
        cong: pbind_weak_cong let_weak_cong prod.case_cong_weak)
  have v: "val (fst ?r) = ''1g''" "filename ?p = ''f''"
    by (simp_all add: lexer_eval parser_eval split del: if_split
        cong: pbind_weak_cong let_weak_cong prod.case_cong_weak)
  have k: "peekTok (snd ?r) = Inr (fst ?k, snd ?k) \<and> typ (fst ?k) \<noteq> tCOLON"
    by (simp add: lexer_eval parser_eval split del: if_split
        cong: pbind_weak_cong let_weak_cong prod.case_cong_weak)
  note t = C5_bare_id_not_hex [THEN conjunct1, rule_format, OF h]
  from t [THEN conjunct2, THEN conjunct2, rule_format, OF k, of "''c''"]
  have "\<exists>p'. expectOID ''c'' ?p = Inr (([], []), p') \<and>
      err p' = Some (NotHex ''f'' (fst ?r))"
    unfolding v by simp
  with t [THEN conjunct1] h v
  show "\<exists>tok p1. nextTok ?p = Inr (tok, p1) \<and> val tok = ''1g'' \<and>
      expectID ?p = Inr ([], p1\<lparr>err := Some (NotHex ''f'' tok)\<rparr>) \<and>
      (\<exists>p'. expectOID ''c'' ?p = Inr (([], []), p') \<and> err p' = Some (NotHex ''f'' tok))"
    by (intro exI [of _ "fst ?r"] exI [of _ "snd ?r"]) simp
next
  let ?l = "newLexer ''2g}''"
  let ?g = "gatherID ?l"
  have g: "gatherID ?l = (fst ?g, snd ?g)" by simp
  have e: "fst ?g = ''2''"
    by (simp add: lexer_eval split del: if_split cong: let_weak_cong prod.case_cong_weak)
  from C5_bare_id_not_hex [THEN conjunct2, rule_format, OF g]
  have "\<not> isHex (peek (snd ?g))" by simp
  moreover have "peek (snd ?g) = Some CHR ''g''"
    by (simp add: lexer_eval split del: if_split cong: let_weak_cong prod.case_cong_weak)
  ultimately show "\<exists>l'. gatherID ?l = (''2'', l') \<and> peek l' = Some CHR ''g''"
    using g e by (intro exI [of _ "snd ?g"]) simp
qed

text \<open>
  Claim C5 as it is worded (also an id after \<open>^\<close> with a character that is not
  a hex digit makes the parse fail, and is never cut to its hex prefix) does not
  hold. In \<open><<(a=c)>(2=s)>{1:^2g}\<close> the scope of the table is written \<open>^2g\<close>; the
  scanner cuts it to the reference \<open>^2\<close>, which resolves to \<open>s\<close>, and the name \<open>g\<close>,
  which the rows loop of the table skips. The parse returns the table \<open>1:s\<close> and
  no error.
\<close>

theorem C5_reference_id_truncated:
  "slurp ''f'' ''<<(a=c)>(2=s)>{1:^2g}'' =
     Some (Inr ([''1:s'' \<mapsto> \<lparr>meta = Map.empty, rows = Map.empty\<rparr>], None))"
  by (simp add: lexer_eval parser_eval split del: if_split
      cong: pbind_weak_cong let_weak_cong prod.case_cong_weak)

section \<open>A group cut short by the end of the input\<close>




section \<open>Two tables of one id and scope\<close>

text \<open>
  Claim C8 (table identity): a table is keyed by the id and the scope of its oid,
  and of two table constructs with the same id and scope the later replaces the
  earlier. The source gives the oid of a table the default scope \<open>c\<close>
  (\<open>toid ::= oid /*default scope is c*/\<close>), so that \<open>{1 ...}\<close> and \<open>{1:c ...}\<close> are
  two constructs of the same id and scope. \<open>expectOID\<close> never applies the
  default: the first is stored under the key \<open>1:\<close> and the second under \<open>1:c\<close>, and
  both are in the result, none replacing the other.
\<close>

theorem C8_scopeless_table_key:
  "slurp fname ''{1[2(a=b)]}{1:c[3(a=b)]}'' =
     Some (Inr ([''1:'' \<mapsto> \<lparr>meta = Map.empty, rows = [''2'' \<mapsto> [''a'' \<mapsto> ''b'']]\<rparr>,
                 ''1:c'' \<mapsto> \<lparr>meta = Map.empty, rows = [''3'' \<mapsto> [''a'' \<mapsto> ''b'']]\<rparr>], None))"
  by (simp add: lexer_eval parser_eval split del: if_split
      cong: pbind_weak_cong let_weak_cong prod.case_cong_weak)

end
